theory Spec2Isabelle
  imports Main "HOL-Library.Sublist"
begin

section \<open>The provider's interface as the script sees it\<close>

text \<open>
  \<^verbatim>\<open>del_aws_resources.py\<close> is a linear script over the boto3 clients of one region.
  Everything it does is a call of a client operation, a \<^verbatim>\<open>print\<close> or a
  \<^verbatim>\<open>time.sleep\<close>.  The provider is not part of the repository, so it is a
  parameter of the model: a client is a record of operations over an abstract state
  \<open>'w\<close> of the region, and each operation returns either a fault (the exception boto3
  raises) or its response, together with the next state of the region.

  A run records every interaction in a trace: the call with its arguments as the source
  passes them, and the answer the provider gave.
\<close>

type_synonym token = string

datatype fault =
    ResourceNotFoundException string
  | ClientError string
  | KeyError string
  | IndexError string

text \<open>The text \<^verbatim>\<open>str(e)\<close> gives for an exception.\<close>

fun fault_text :: "fault \<Rightarrow> string" where
  "fault_text (ResourceNotFoundException m) = m"
| "fault_text (ClientError m) = m"
| "fault_text (KeyError k) = [CHR 0x27] @ k @ [CHR 0x27]"
| "fault_text (IndexError m) = m"

type_synonym 'a result = "fault + 'a"

text \<open>A listing operation answers one page and, when there are more, the token of the next.\<close>

type_synonym 'a page = "'a list \<times> token option"

record stack_summary =
  StackName :: string
  StackStatus :: string

record stack_detail =
  EnableTerminationProtection :: bool

record route =
  VpcPeeringConnectionId :: "string option"
  DestinationCidrBlock :: "string option"

record route_table =
  RouteTableId :: string
  Routes :: "route list"

datatype cfn_call =
    ListStacks "string list" "token option" "stack_summary page result"
  | DescribeStacks string "stack_detail list result"
  | DeleteStack string "unit result"
  | WaitStackDeleteComplete string "unit result"

datatype asg_call =
    DescribeAutoScalingGroups "token option" "string page result"
  | DeleteAutoScalingGroup string bool "unit result"

datatype lambda_call =
    ListFunctions "token option" "string page result"
  | DeleteFunction string "unit result"
  | GetFunction string "unit result"

datatype opensearch_call =
    ListDomainNames "string list result"
  | DeleteDomain string "unit result"

datatype eks_call =
    EksListClusters "string page result"
  | ListNodegroups string "string page result"
  | DeleteNodegroup string string "unit result"
  | WaitNodegroupDeleted string string "unit result"
  | EksDeleteCluster string "unit result"
  | WaitEksClusterDeleted string "unit result"

datatype peering_call =
    DescribeVpcPeeringConnections "string page result"
  | DescribeRouteTables string "route_table page result"
  | DeleteRoute string string "unit result"
  | DeleteVpcPeeringConnection string "unit result"

datatype kinesis_call =
    ListStreams "string page result"
  | DeleteStream string bool "unit result"
  | ListDeliveryStreams "string page result"
  | DeleteDeliveryStream string "unit result"

datatype ec2_call =
    DescribeInstances "token option" "string list page result"
  | TerminateInstances "string list" "unit result"
  | WaitInstanceTerminated "string list" "unit result"

datatype ecs_call =
    EcsListClusters "token option" "string page result"
  | ListServices string "token option" "string page result"
  | UpdateService string string nat "unit result"
  | DeleteService string string bool "unit result"
  | WaitServicesInactive string "string list" "unit result"
  | ListTasks string "token option" "string page result"
  | StopTask string string "unit result"
  | WaitTasksStopped string "string list" "unit result"
  | EcsDeleteCluster string "unit result"
  | WaitEcsClusterDeleted "string list" "unit result"

datatype event =
    Cfn cfn_call
  | Asg asg_call
  | Lam lambda_call
  | Ops opensearch_call
  | Eks eks_call
  | Peer peering_call
  | Kin kinesis_call
  | Ec2 ec2_call
  | Ecs ecs_call
  | Print string
  | Sleep nat

type_synonym ('w, 'a) api = "'w \<Rightarrow> 'a result \<times> 'w"

record 'w cloudformation =
  list_stacks :: "string list \<Rightarrow> token option \<Rightarrow> ('w, stack_summary page) api"
  describe_stacks :: "string \<Rightarrow> ('w, stack_detail list) api"
  delete_stack :: "string \<Rightarrow> ('w, unit) api"
  wait_stack_delete_complete :: "string \<Rightarrow> ('w, unit) api"

record 'w autoscaling =
  describe_auto_scaling_groups :: "token option \<Rightarrow> ('w, string page) api"
  delete_auto_scaling_group :: "string \<Rightarrow> bool \<Rightarrow> ('w, unit) api"

record 'w lambda =
  list_functions :: "token option \<Rightarrow> ('w, string page) api"
  delete_function :: "string \<Rightarrow> ('w, unit) api"
  get_function :: "string \<Rightarrow> ('w, unit) api"

record 'w opensearch =
  list_domain_names :: "('w, string list) api"
  delete_domain :: "string \<Rightarrow> ('w, unit) api"

record 'w eks =
  eks_list_clusters :: "('w, string page) api"
  list_nodegroups :: "string \<Rightarrow> ('w, string page) api"
  delete_nodegroup :: "string \<Rightarrow> string \<Rightarrow> ('w, unit) api"
  wait_nodegroup_deleted :: "string \<Rightarrow> string \<Rightarrow> ('w, unit) api"
  eks_delete_cluster :: "string \<Rightarrow> ('w, unit) api"
  wait_eks_cluster_deleted :: "string \<Rightarrow> ('w, unit) api"

record 'w ec2 =
  describe_vpc_peering_connections :: "('w, string page) api"
  describe_route_tables :: "string \<Rightarrow> ('w, route_table page) api"
  delete_route :: "string \<Rightarrow> string \<Rightarrow> ('w, unit) api"
  delete_vpc_peering_connection :: "string \<Rightarrow> ('w, unit) api"
  describe_instances :: "token option \<Rightarrow> ('w, string list page) api"
  terminate_instances :: "string list \<Rightarrow> ('w, unit) api"
  wait_instance_terminated :: "string list \<Rightarrow> ('w, unit) api"

record 'w kinesis =
  list_streams :: "('w, string page) api"
  delete_stream :: "string \<Rightarrow> bool \<Rightarrow> ('w, unit) api"

record 'w firehose =
  list_delivery_streams :: "('w, string page) api"
  delete_delivery_stream :: "string \<Rightarrow> ('w, unit) api"

record 'w ecs =
  ecs_list_clusters :: "token option \<Rightarrow> ('w, string page) api"
  list_services :: "string \<Rightarrow> token option \<Rightarrow> ('w, string page) api"
  update_service :: "string \<Rightarrow> string \<Rightarrow> nat \<Rightarrow> ('w, unit) api"
  delete_service :: "string \<Rightarrow> string \<Rightarrow> bool \<Rightarrow> ('w, unit) api"
  wait_services_inactive :: "string \<Rightarrow> string list \<Rightarrow> ('w, unit) api"
  list_tasks :: "string \<Rightarrow> token option \<Rightarrow> ('w, string page) api"
  stop_task :: "string \<Rightarrow> string \<Rightarrow> ('w, unit) api"
  wait_tasks_stopped :: "string \<Rightarrow> string list \<Rightarrow> ('w, unit) api"
  ecs_delete_cluster :: "string \<Rightarrow> ('w, unit) api"
  wait_ecs_cluster_deleted :: "string list \<Rightarrow> ('w, unit) api"

section \<open>Runs\<close>

text \<open>
  A run ends normally, with an uncaught exception, or is still going when the observer
  stops looking (\<open>Cut\<close>): the page loops of the paginators and the polling loop of the
  function teardown end only when the provider says so, so they take a bound on the
  number of rounds observed.  The trace of a cut run is a prefix of what the script does.
\<close>

datatype 'a outcome = Done 'a | Raised fault | Cut

type_synonym ('w, 'a) prog = "'w \<times> event list \<Rightarrow> 'a outcome \<times> 'w \<times> event list"

definition ret :: "'a \<Rightarrow> ('w, 'a) prog" where
  "ret x = (\<lambda>s. (Done x, s))"

definition raise :: "fault \<Rightarrow> ('w, 'a) prog" where
  "raise f = (\<lambda>s. (Raised f, s))"

definition cut :: "('w, 'a) prog" where
  "cut = (\<lambda>s. (Cut, s))"

definition bind :: "('w, 'a) prog \<Rightarrow> ('a \<Rightarrow> ('w, 'b) prog) \<Rightarrow> ('w, 'b) prog" where
  "bind m f = (\<lambda>s. case m s of
       (Done x, s') \<Rightarrow> f x s'
     | (Raised e, s') \<Rightarrow> (Raised e, s')
     | (Cut, s') \<Rightarrow> (Cut, s'))"

definition seq :: "('w, 'a) prog \<Rightarrow> ('w, 'b) prog \<Rightarrow> ('w, 'b) prog" where
  "seq m n = bind m (\<lambda>_. n)"

definition call :: "('a result \<Rightarrow> event) \<Rightarrow> ('w, 'a) api \<Rightarrow> ('w, 'a) prog" where
  "call ev op = (\<lambda>(w, t). case op w of
       (Inl f, w') \<Rightarrow> (Raised f, w', t @ [ev (Inl f)])
     | (Inr x, w') \<Rightarrow> (Done x, w', t @ [ev (Inr x)]))"

definition print :: "string \<Rightarrow> ('w, unit) prog" where
  "print msg = (\<lambda>(w, t). (Done (), w, t @ [Print msg]))"

definition sleep :: "nat \<Rightarrow> ('w, unit) prog" where
  "sleep n = (\<lambda>(w, t). (Done (), w, t @ [Sleep n]))"

text \<open>\<^verbatim>\<open>try: m  except Exception as e: ...\<close> hands the exception over as a value.\<close>

definition attempt :: "('w, 'a) prog \<Rightarrow> ('w, 'a result) prog" where
  "attempt m = (\<lambda>s. case m s of
       (Done x, s') \<Rightarrow> (Done (Inr x), s')
     | (Raised e, s') \<Rightarrow> (Done (Inl e), s')
     | (Cut, s') \<Rightarrow> (Cut, s'))"

text \<open>\<^verbatim>\<open>for x in xs: body\<close>\<close>

fun for_each :: "'a list \<Rightarrow> ('a \<Rightarrow> ('w, unit) prog) \<Rightarrow> ('w, unit) prog" where
  "for_each [] body = ret ()"
| "for_each (x # xs) body = seq (body x) (for_each xs body)"

text \<open>
  \<^verbatim>\<open>for page in paginator.paginate(...): body\<close>.  boto3's paginator calls the
  operation without a token, yields the page, and while the page came with a token calls
  the operation again with it.  \<open>n\<close> bounds the pages observed.
\<close>

fun for_pages :: "nat \<Rightarrow> (token option \<Rightarrow> ('w, 'a page) prog) \<Rightarrow> ('a list \<Rightarrow> ('w, unit) prog)
    \<Rightarrow> token option \<Rightarrow> ('w, unit) prog" where
  "for_pages 0 fetch body tok = cut"
| "for_pages (Suc n) fetch body tok =
     bind (fetch tok) (\<lambda>(items, next).
       seq (body items)
         (case next of None \<Rightarrow> ret () | Some t \<Rightarrow> for_pages n fetch body (Some t)))"

definition run :: "('w, 'a) prog \<Rightarrow> 'w \<Rightarrow> 'a outcome \<times> 'w \<times> event list" where
  "run m w = m (w, [])"

definition outcome_of :: "('w, 'a) prog \<Rightarrow> 'w \<Rightarrow> 'a outcome" where
  "outcome_of m w = fst (run m w)"

definition trace_of :: "('w, 'a) prog \<Rightarrow> 'w \<Rightarrow> event list" where
  "trace_of m w = snd (snd (run m w))"

section \<open>Stack teardown\<close>

definition contains :: "string \<Rightarrow> string \<Rightarrow> bool" where
  "contains sub s = sublist sub s"

text \<open>Lines 32 to 44, and the same lines again at 54 to 66.\<close>

definition delete_one_stack :: "'w cloudformation \<Rightarrow> string \<Rightarrow> bool \<Rightarrow> string \<Rightarrow> ('w, unit) prog" where
  "delete_one_stack client region wait stack_name =
     bind (call (\<lambda>r. Cfn (DescribeStacks stack_name r)) (describe_stacks client stack_name))
       (\<lambda>stacks. case stacks of
           [] \<Rightarrow> raise (IndexError ''list index out of range'')
         | d # _ \<Rightarrow>
             if EnableTerminationProtection d then
               print (''Skipping stack: '' @ stack_name @ '' in region '' @ region
                       @ '' due to termination protection'')
             else
               seq (print (''Deleting stack: '' @ stack_name @ '' in region '' @ region))
              (seq (call (\<lambda>r. Cfn (DeleteStack stack_name r)) (delete_stack client stack_name))
                (if wait then
                   seq (call (\<lambda>r. Cfn (WaitStackDeleteComplete stack_name r))
                          (wait_stack_delete_complete client stack_name))
                       (print (''Deleted stack: '' @ stack_name @ '' in region '' @ region))
                 else ret ())))"

definition first_pass_statuses :: "string list" where
  "first_pass_statuses = [''CREATE_COMPLETE'', ''UPDATE_COMPLETE'', ''ROLLBACK_COMPLETE'', ''DELETE_FAILED'']"

definition second_pass_statuses :: "string list" where
  "second_pass_statuses = [''CREATE_COMPLETE'', ''UPDATE_COMPLETE'', ''ROLLBACK_COMPLETE'']"

definition in_first_pass :: "string \<Rightarrow> bool" where
  "in_first_pass stack_name \<longleftrightarrow> contains ''AppPipe'' stack_name \<or> contains ''AppIngestion'' stack_name"

definition in_second_pass :: "string \<Rightarrow> bool" where
  "in_second_pass stack_name \<longleftrightarrow> \<not> contains ''AppPipe'' stack_name"

definition stack_pass :: "'w cloudformation \<Rightarrow> nat \<Rightarrow> string \<Rightarrow> bool \<Rightarrow> string list
    \<Rightarrow> (string \<Rightarrow> bool) \<Rightarrow> ('w, unit) prog" where
  "stack_pass client fuel region wait statuses selected =
     for_pages fuel
       (\<lambda>tok. call (\<lambda>r. Cfn (ListStacks statuses tok r)) (list_stacks client statuses tok))
       (\<lambda>summaries. for_each summaries (\<lambda>stack.
          if selected (StackName stack)
          then delete_one_stack client region wait (StackName stack)
          else ret ()))
       None"

definition delete_all_stacks :: "'w cloudformation \<Rightarrow> nat \<Rightarrow> string \<Rightarrow> bool \<Rightarrow> ('w, unit) prog" where
  "delete_all_stacks client fuel region wait =
     seq (stack_pass client fuel region wait first_pass_statuses in_first_pass)
         (stack_pass client fuel region wait second_pass_statuses in_second_pass)"

section \<open>Auto Scaling group teardown\<close>

definition delete_all_auto_scaling_groups :: "'w autoscaling \<Rightarrow> nat \<Rightarrow> string \<Rightarrow> ('w, unit) prog" where
  "delete_all_auto_scaling_groups client fuel region =
     for_pages fuel
       (\<lambda>tok. call (\<lambda>r. Asg (DescribeAutoScalingGroups tok r)) (describe_auto_scaling_groups client tok))
       (\<lambda>groups. for_each groups (\<lambda>asg_name.
          seq (print (''Deleting Auto Scaling group: '' @ asg_name @ '' in region '' @ region))
         (seq (call (\<lambda>r. Asg (DeleteAutoScalingGroup asg_name True r))
                 (delete_auto_scaling_group client asg_name True))
              (print (''Deleted Auto Scaling group: '' @ asg_name @ '' in region '' @ region)))))
       None"

section \<open>Serverless function teardown\<close>

text \<open>
  The \<^verbatim>\<open>while True\<close> loop of lines 129 to 138.  Only \<^verbatim>\<open>get_function\<close> is inside
  the \<^verbatim>\<open>try\<close>; the loop has no bound of its own, \<open>n\<close> bounds the polls observed.
\<close>

fun poll_function :: "nat \<Rightarrow> 'w lambda \<Rightarrow> string \<Rightarrow> string \<Rightarrow> ('w, unit) prog" where
  "poll_function 0 client region function_name = cut"
| "poll_function (Suc n) client region function_name =
     bind (attempt (call (\<lambda>r. Lam (GetFunction function_name r)) (get_function client function_name)))
       (\<lambda>r. case r of
           Inl (ResourceNotFoundException m) \<Rightarrow>
             print (''Deleted Lambda function: '' @ function_name @ '' in region '' @ region)
         | Inl e \<Rightarrow> print (''Error checking function status: '' @ fault_text e)
         | Inr u \<Rightarrow> seq (sleep 5) (poll_function n client region function_name))"

text \<open>The body of the loop over the functions, lines 123 to 138.\<close>

definition delete_lambda_function :: "'w lambda \<Rightarrow> nat \<Rightarrow> string \<Rightarrow> string \<Rightarrow> ('w, unit) prog" where
  "delete_lambda_function client fuel region function_name =
     seq (print (''Deleting Lambda function: '' @ function_name @ '' in region '' @ region))
    (seq (call (\<lambda>r. Lam (DeleteFunction function_name r)) (delete_function client function_name))
         (poll_function fuel client region function_name))"

definition delete_all_lambda_functions :: "'w lambda \<Rightarrow> nat \<Rightarrow> string \<Rightarrow> ('w, unit) prog" where
  "delete_all_lambda_functions client fuel region =
     for_pages fuel
       (\<lambda>tok. call (\<lambda>r. Lam (ListFunctions tok r)) (list_functions client tok))
       (\<lambda>functions. for_each functions (delete_lambda_function client fuel region))
       None"

section \<open>Search cluster teardown\<close>

definition delete_all_opensearch_clusters :: "'w opensearch \<Rightarrow> string \<Rightarrow> ('w, unit) prog" where
  "delete_all_opensearch_clusters client region =
     bind (call (\<lambda>r. Ops (ListDomainNames r)) (list_domain_names client))
       (\<lambda>clusters. for_each clusters (\<lambda>domain_name.
          seq (print (''Deleting OpenSearch cluster: '' @ domain_name @ '' in region '' @ region))
         (seq (call (\<lambda>r. Ops (DeleteDomain domain_name r)) (delete_domain client domain_name))
              (print (''Deleted OpenSearch cluster: '' @ domain_name @ '' in region '' @ region)))))"

section \<open>Managed Kubernetes teardown\<close>

text \<open>
  \<^verbatim>\<open>client.list_clusters()['clusters']\<close> and
  \<^verbatim>\<open>client.list_nodegroups(...)['nodegroups']\<close> are single calls: the code reads the
  items of the answer and never its token.
\<close>

text \<open>The body of the inner loop, lines 199 to 205: the wait is not under \<^verbatim>\<open>if wait\<close>.\<close>

definition delete_eks_nodegroup :: "'w eks \<Rightarrow> string \<Rightarrow> string \<Rightarrow> ('w, unit) prog" where
  "delete_eks_nodegroup client cluster_name node_group =
     seq (print (''Deleting node group: '' @ node_group @ '' in cluster: '' @ cluster_name))
    (seq (call (\<lambda>r. Eks (DeleteNodegroup cluster_name node_group r))
            (delete_nodegroup client cluster_name node_group))
         (call (\<lambda>r. Eks (WaitNodegroupDeleted cluster_name node_group r))
            (wait_nodegroup_deleted client cluster_name node_group)))"

text \<open>The body of the outer loop, lines 195 to 214.\<close>

definition delete_eks_cluster :: "'w eks \<Rightarrow> string \<Rightarrow> bool \<Rightarrow> string \<Rightarrow> ('w, unit) prog" where
  "delete_eks_cluster client region wait cluster_name =
     bind (call (\<lambda>r. Eks (ListNodegroups cluster_name r)) (list_nodegroups client cluster_name))
       (\<lambda>(node_groups, _).
          seq (for_each node_groups (delete_eks_nodegroup client cluster_name))
         (seq (print (''Deleting EKS cluster: '' @ cluster_name @ '' in region '' @ region))
         (seq (call (\<lambda>r. Eks (EksDeleteCluster cluster_name r)) (eks_delete_cluster client cluster_name))
              (if wait
               then call (\<lambda>r. Eks (WaitEksClusterDeleted cluster_name r))
                      (wait_eks_cluster_deleted client cluster_name)
               else ret ()))))"

definition delete_all_eks_clusters :: "'w eks \<Rightarrow> string \<Rightarrow> bool \<Rightarrow> ('w, unit) prog" where
  "delete_all_eks_clusters client region wait =
     bind (call (\<lambda>r. Eks (EksListClusters r)) (eks_list_clusters client))
       (\<lambda>(clusters, _). for_each clusters (delete_eks_cluster client region wait))"

section \<open>Network peering teardown\<close>

text \<open>
  \<^verbatim>\<open>route.get('VpcPeeringConnectionId')\<close> is \<^verbatim>\<open>None\<close> for a route without the key;
  \<^verbatim>\<open>route['DestinationCidrBlock']\<close> raises \<^verbatim>\<open>KeyError\<close> for a route without it, while
  the arguments of \<^verbatim>\<open>delete_route\<close> are evaluated, before the call.
\<close>

definition delete_peering_route :: "'w ec2 \<Rightarrow> string \<Rightarrow> string \<Rightarrow> route \<Rightarrow> ('w, unit) prog" where
  "delete_peering_route client peering_connection_id route_table_id r =
     (if VpcPeeringConnectionId r = Some peering_connection_id then
        (case DestinationCidrBlock r of
           None \<Rightarrow> raise (KeyError ''DestinationCidrBlock'')
         | Some cidr \<Rightarrow>
             seq (call (\<lambda>res. Peer (DeleteRoute route_table_id cidr res))
                    (delete_route client route_table_id cidr))
                 (print (''Deleted route: '' @ cidr @ '' in route table: '' @ route_table_id)))
      else ret ())"

text \<open>The body of the loop over the connections, lines 225 to 238.\<close>

definition delete_peering_connection :: "'w ec2 \<Rightarrow> string \<Rightarrow> string \<Rightarrow> ('w, unit) prog" where
  "delete_peering_connection client region peering_connection_id =
     seq (print (''Deleting VPC peering connection: '' @ peering_connection_id
                  @ '' in region '' @ region))
    (bind (call (\<lambda>r. Peer (DescribeRouteTables peering_connection_id r))
             (describe_route_tables client peering_connection_id))
       (\<lambda>(route_tables, _).
          seq (for_each route_tables (\<lambda>route_table.
                 for_each (Routes route_table)
                   (delete_peering_route client peering_connection_id (RouteTableId route_table))))
         (seq (call (\<lambda>r. Peer (DeleteVpcPeeringConnection peering_connection_id r))
                 (delete_vpc_peering_connection client peering_connection_id))
              (print (''Deleted VPC peering connection: '' @ peering_connection_id
                       @ '' in region '' @ region)))))"

definition delete_all_peering_connections :: "'w ec2 \<Rightarrow> string \<Rightarrow> ('w, unit) prog" where
  "delete_all_peering_connections client region =
     bind (call (\<lambda>r. Peer (DescribeVpcPeeringConnections r)) (describe_vpc_peering_connections client))
       (\<lambda>(connections, _). for_each connections (delete_peering_connection client region))"

section \<open>Streaming pipeline teardown\<close>

definition delete_all_kinesis_streams :: "'w kinesis \<Rightarrow> 'w firehose \<Rightarrow> string \<Rightarrow> ('w, unit) prog" where
  "delete_all_kinesis_streams kinesis_client firehose_client region =
     bind (call (\<lambda>r. Kin (ListStreams r)) (list_streams kinesis_client))
       (\<lambda>(data_streams, _).
          seq (for_each data_streams (\<lambda>stream_name.
                 seq (print (''Deleting Kinesis data stream: '' @ stream_name @ '' in region '' @ region))
                     (call (\<lambda>r. Kin (DeleteStream stream_name True r))
                        (delete_stream kinesis_client stream_name True))))
         (bind (call (\<lambda>r. Kin (ListDeliveryStreams r)) (list_delivery_streams firehose_client))
            (\<lambda>(firehose_streams, _).
               for_each firehose_streams (\<lambda>stream_name.
                 seq (print (''Deleting Kinesis Firehose delivery stream: '' @ stream_name
                              @ '' in region '' @ region))
                     (call (\<lambda>r. Kin (DeleteDeliveryStream stream_name r))
                        (delete_delivery_stream firehose_client stream_name))))))"

section \<open>Compute instance teardown\<close>

text \<open>A page of \<^verbatim>\<open>describe_instances\<close> is a list of reservations, each a list of instances.\<close>

definition terminate_all_ec2_instances :: "'w ec2 \<Rightarrow> nat \<Rightarrow> string \<Rightarrow> bool \<Rightarrow> ('w, unit) prog" where
  "terminate_all_ec2_instances client fuel region wait =
     for_pages fuel
       (\<lambda>tok. call (\<lambda>r. Ec2 (DescribeInstances tok r)) (describe_instances client tok))
       (\<lambda>reservations. for_each reservations (\<lambda>instances. for_each instances (\<lambda>instance_id.
          seq (print (''Terminating EC2 instance: '' @ instance_id @ '' in region '' @ region))
         (seq (call (\<lambda>r. Ec2 (TerminateInstances [instance_id] r))
                 (terminate_instances client [instance_id]))
              (if wait then
                 seq (call (\<lambda>r. Ec2 (WaitInstanceTerminated [instance_id] r))
                        (wait_instance_terminated client [instance_id]))
                     (print (''Terminated EC2 instance: '' @ instance_id @ '' in region '' @ region))
               else ret ())))))
       None"

section \<open>Container cluster teardown\<close>

definition delete_ecs_service :: "'w ecs \<Rightarrow> string \<Rightarrow> bool \<Rightarrow> string \<Rightarrow> string \<Rightarrow> ('w, unit) prog" where
  "delete_ecs_service client region wait cluster_arn service_arn =
     seq (print (''Deleting service: '' @ service_arn @ '' in cluster: '' @ cluster_arn
                  @ '' in region '' @ region))
    (seq (call (\<lambda>r. Ecs (UpdateService cluster_arn service_arn 0 r))
            (update_service client cluster_arn service_arn 0))
    (seq (call (\<lambda>r. Ecs (DeleteService cluster_arn service_arn True r))
            (delete_service client cluster_arn service_arn True))
         (if wait then
            seq (call (\<lambda>r. Ecs (WaitServicesInactive cluster_arn [service_arn] r))
                   (wait_services_inactive client cluster_arn [service_arn]))
                (print (''Deleted service: '' @ service_arn @ '' in cluster: '' @ cluster_arn
                         @ '' in region '' @ region))
          else ret ())))"

definition stop_ecs_task :: "'w ecs \<Rightarrow> string \<Rightarrow> bool \<Rightarrow> string \<Rightarrow> string \<Rightarrow> ('w, unit) prog" where
  "stop_ecs_task client region wait cluster_arn task_arn =
     seq (print (''Stopping task: '' @ task_arn @ '' in cluster: '' @ cluster_arn
                  @ '' in region '' @ region))
    (seq (call (\<lambda>r. Ecs (StopTask cluster_arn task_arn r)) (stop_task client cluster_arn task_arn))
         (if wait then
            seq (call (\<lambda>r. Ecs (WaitTasksStopped cluster_arn [task_arn] r))
                   (wait_tasks_stopped client cluster_arn [task_arn]))
                (print (''Stopped task: '' @ task_arn @ '' in cluster: '' @ cluster_arn
                         @ '' in region '' @ region))
          else ret ()))"

definition delete_ecs_cluster :: "'w ecs \<Rightarrow> nat \<Rightarrow> string \<Rightarrow> bool \<Rightarrow> string \<Rightarrow> ('w, unit) prog" where
  "delete_ecs_cluster client fuel region wait cluster_arn =
     seq (for_pages fuel
            (\<lambda>tok. call (\<lambda>r. Ecs (ListServices cluster_arn tok r)) (list_services client cluster_arn tok))
            (\<lambda>service_arns. for_each service_arns (delete_ecs_service client region wait cluster_arn))
            None)
    (seq (for_pages fuel
            (\<lambda>tok. call (\<lambda>r. Ecs (ListTasks cluster_arn tok r)) (list_tasks client cluster_arn tok))
            (\<lambda>task_arns. for_each task_arns (stop_ecs_task client region wait cluster_arn))
            None)
    (seq (print (''Deleting ECS cluster: '' @ cluster_arn @ '' in region '' @ region))
    (seq (call (\<lambda>r. Ecs (EcsDeleteCluster cluster_arn r)) (ecs_delete_cluster client cluster_arn))
         (if wait then
            seq (call (\<lambda>r. Ecs (WaitEcsClusterDeleted [cluster_arn] r))
                   (wait_ecs_cluster_deleted client [cluster_arn]))
                (print (''Deleted ECS cluster: '' @ cluster_arn @ '' in region '' @ region))
          else ret ()))))"

definition delete_all_ecs_clusters :: "'w ecs \<Rightarrow> nat \<Rightarrow> string \<Rightarrow> bool \<Rightarrow> ('w, unit) prog" where
  "delete_all_ecs_clusters client fuel region wait =
     for_pages fuel
       (\<lambda>tok. call (\<lambda>r. Ecs (EcsListClusters tok r)) (ecs_list_clusters client tok))
       (\<lambda>cluster_arns. for_each cluster_arns (delete_ecs_cluster client fuel region wait))
       None"

section \<open>The driver\<close>

text \<open>\<^verbatim>\<open>boto3.client(service, region_name=region)\<close>, for each service the script uses.\<close>

record 'w boto3 =
  cloudformation_client :: "'w cloudformation"
  autoscaling_client :: "'w autoscaling"
  lambda_client :: "'w lambda"
  opensearch_client :: "'w opensearch"
  eks_client :: "'w eks"
  ec2_client :: "'w ec2"
  kinesis_client :: "'w kinesis"
  firehose_client :: "'w firehose"
  ecs_client :: "'w ecs"

text \<open>Lines 360 to 375.  \<^verbatim>\<open>delete_all_eks_clusters(region)\<close> takes the default \<^verbatim>\<open>wait=False\<close>.\<close>

definition main :: "'w boto3 \<Rightarrow> nat \<Rightarrow> ('w, unit) prog" where
  "main b fuel =
     (let region = ''cn-north-1'' in
      seq (delete_all_auto_scaling_groups (autoscaling_client b) fuel region)
     (seq (delete_all_ecs_clusters (ecs_client b) fuel region True)
     (seq (terminate_all_ec2_instances (ec2_client b) fuel region False)
     (seq (delete_all_lambda_functions (lambda_client b) fuel region)
     (seq (delete_all_peering_connections (ec2_client b) region)
     (seq (delete_all_opensearch_clusters (opensearch_client b) region)
     (seq (delete_all_kinesis_streams (kinesis_client b) (firehose_client b) region)
     (seq (delete_all_eks_clusters (eks_client b) region False)
          (delete_all_stacks (cloudformation_client b) fuel region False)))))))))"

section \<open>A reference provider for running scenarios\<close>

text \<open>
  The theorems below hold for every provider.  To run the script on concrete regions, this
  section gives one small provider: a region is the lists of its resources, a listing
  answers at most \<open>page_size\<close> items with a token that counts the items already
  answered, and the delete operations do what the provider's documentation says in the
  cases the scenarios need (a stack goes to \<^verbatim>\<open>DELETE_IN_PROGRESS\<close> and the waiter sees it
  deleted; a container service drains until the waiter sees it inactive; a cluster that
  still has node groups, services or tasks refuses to be deleted).
\<close>

record region_state =
  page_size :: nat
  stacks :: "(string \<times> string \<times> bool) list"
  scaling_groups :: "string list"
  lambda_functions :: "string list"
  domains :: "string list"
  eks_clusters :: "(string \<times> string list) list"
  peering_connections :: "string list"
  route_tables :: "route_table list"
  streams :: "string list"
  delivery_streams :: "string list"
  reservations :: "string list list"
  ecs_clusters :: "(string \<times> (string \<times> bool) list \<times> (string \<times> bool) list) list"

definition empty_region :: region_state where
  "empty_region = \<lparr>page_size = 100, stacks = [], scaling_groups = [], lambda_functions = [], domains = [],
     eks_clusters = [], peering_connections = [], route_tables = [], streams = [],
     delivery_streams = [], reservations = [], ecs_clusters = []\<rparr>"

definition token_of :: "nat \<Rightarrow> token" where
  "token_of k = replicate k (CHR ''I'')"

definition page_from :: "nat \<Rightarrow> 'a list \<Rightarrow> token option \<Rightarrow> 'a page" where
  "page_from limit xs tok =
     (let start = (case tok of None \<Rightarrow> 0 | Some t \<Rightarrow> length t) in
      (take limit (drop start xs),
       if start + limit < length xs then Some (token_of (start + limit)) else None))"

subsection \<open>CloudFormation\<close>

definition test_list_stacks :: "string list \<Rightarrow> token option \<Rightarrow> (region_state, stack_summary page) api" where
  "test_list_stacks statuses tok w =
     (Inr (page_from (page_size w)
             (map (\<lambda>(n, s, p). \<lparr>StackName = n, StackStatus = s\<rparr>)
                (filter (\<lambda>(n, s, p). s \<in> set statuses) (stacks w))) tok), w)"

definition test_describe_stacks :: "string \<Rightarrow> (region_state, stack_detail list) api" where
  "test_describe_stacks name w =
     (case filter (\<lambda>(n, s, p). n = name \<and> s \<noteq> ''DELETE_COMPLETE'') (stacks w) of
        [] \<Rightarrow> (Inl (ClientError (''Stack with id '' @ name @ '' does not exist'')), w)
      | found \<Rightarrow> (Inr (map (\<lambda>(n, s, p). \<lparr>EnableTerminationProtection = p\<rparr>) found), w))"

definition set_stack_status :: "string \<Rightarrow> string \<Rightarrow> region_state \<Rightarrow> region_state" where
  "set_stack_status name status w =
     w\<lparr>stacks := map (\<lambda>(n, s, p). if n = name \<and> s \<noteq> ''DELETE_COMPLETE'' then (n, status, p) else (n, s, p)) (stacks w)\<rparr>"

definition test_delete_stack :: "string \<Rightarrow> (region_state, unit) api" where
  "test_delete_stack name w =
     (if \<exists>(n, s, p) \<in> set (stacks w). n = name \<and> s \<noteq> ''DELETE_COMPLETE'' \<and> p
      then (Inl (ClientError (''Stack '' @ name @ '' cannot be deleted while TerminationProtection is enabled'')), w)
      else (Inr (), set_stack_status name ''DELETE_IN_PROGRESS'' w))"

definition test_wait_stack_delete_complete :: "string \<Rightarrow> (region_state, unit) api" where
  "test_wait_stack_delete_complete name w =
     (Inr (), w\<lparr>stacks := map (\<lambda>(n, s, p). if n = name \<and> s = ''DELETE_IN_PROGRESS'' then (n, ''DELETE_COMPLETE'', p) else (n, s, p)) (stacks w)\<rparr>)"

definition test_cloudformation :: "region_state cloudformation" where
  "test_cloudformation = \<lparr>list_stacks = test_list_stacks, describe_stacks = test_describe_stacks,
     delete_stack = test_delete_stack, wait_stack_delete_complete = test_wait_stack_delete_complete\<rparr>"

subsection \<open>Auto Scaling, Lambda, OpenSearch, Kinesis, Firehose\<close>

definition test_autoscaling :: "region_state autoscaling" where
  "test_autoscaling = \<lparr>
     describe_auto_scaling_groups = (\<lambda>tok w. (Inr (page_from (page_size w) (scaling_groups w) tok), w)),
     delete_auto_scaling_group = (\<lambda>name force w. (Inr (), w\<lparr>scaling_groups := removeAll name (scaling_groups w)\<rparr>))\<rparr>"

definition test_lambda :: "region_state lambda" where
  "test_lambda = \<lparr>
     list_functions = (\<lambda>tok w. (Inr (page_from (page_size w) (lambda_functions w) tok), w)),
     delete_function = (\<lambda>name w. (Inr (), w\<lparr>lambda_functions := removeAll name (lambda_functions w)\<rparr>)),
     get_function = (\<lambda>name w.
       if name \<in> set (lambda_functions w) then (Inr (), w)
       else (Inl (ResourceNotFoundException (''Function not found: '' @ name)), w))\<rparr>"

definition test_opensearch :: "region_state opensearch" where
  "test_opensearch = \<lparr>
     list_domain_names = (\<lambda>w. (Inr (domains w), w)),
     delete_domain = (\<lambda>name w. (Inr (), w\<lparr>domains := removeAll name (domains w)\<rparr>))\<rparr>"

definition test_kinesis :: "region_state kinesis" where
  "test_kinesis = \<lparr>
     list_streams = (\<lambda>w. (Inr (page_from (page_size w) (streams w) None), w)),
     delete_stream = (\<lambda>name enforce w. (Inr (), w\<lparr>streams := removeAll name (streams w)\<rparr>))\<rparr>"

definition test_firehose :: "region_state firehose" where
  "test_firehose = \<lparr>
     list_delivery_streams = (\<lambda>w. (Inr (page_from (page_size w) (delivery_streams w) None), w)),
     delete_delivery_stream = (\<lambda>name w. (Inr (), w\<lparr>delivery_streams := removeAll name (delivery_streams w)\<rparr>))\<rparr>"

subsection \<open>EKS\<close>

definition test_list_nodegroups :: "string \<Rightarrow> (region_state, string page) api" where
  "test_list_nodegroups c w =
     (case map_of (eks_clusters w) c of
        None \<Rightarrow> (Inl (ResourceNotFoundException (''No cluster found for name: '' @ c)), w)
      | Some gs \<Rightarrow> (Inr (page_from (page_size w) gs None), w))"

definition test_delete_nodegroup :: "string \<Rightarrow> string \<Rightarrow> (region_state, unit) api" where
  "test_delete_nodegroup c g w =
     (Inr (), w\<lparr>eks_clusters := map (\<lambda>(n, gs). if n = c then (n, removeAll g gs) else (n, gs)) (eks_clusters w)\<rparr>)"

definition test_eks_delete_cluster :: "string \<Rightarrow> (region_state, unit) api" where
  "test_eks_delete_cluster c w =
     (case map_of (eks_clusters w) c of
        None \<Rightarrow> (Inl (ResourceNotFoundException (''No cluster found for name: '' @ c)), w)
      | Some gs \<Rightarrow>
          if gs = [] then (Inr (), w\<lparr>eks_clusters := filter (\<lambda>(n, gs). n \<noteq> c) (eks_clusters w)\<rparr>)
          else (Inl (ClientError ''ResourceInUseException: Cluster has nodegroups attached''), w))"

definition test_eks :: "region_state eks" where
  "test_eks = \<lparr>
     eks_list_clusters = (\<lambda>w. (Inr (page_from (page_size w) (map fst (eks_clusters w)) None), w)),
     list_nodegroups = test_list_nodegroups,
     delete_nodegroup = test_delete_nodegroup,
     wait_nodegroup_deleted = (\<lambda>c g w. (Inr (), w)),
     eks_delete_cluster = test_eks_delete_cluster,
     wait_eks_cluster_deleted = (\<lambda>c w. (Inr (), w))\<rparr>"

subsection \<open>EC2\<close>

definition test_describe_route_tables :: "string \<Rightarrow> (region_state, route_table page) api" where
  "test_describe_route_tables pcx w =
     (Inr (page_from (page_size w)
             (filter (\<lambda>rt. \<exists>r \<in> set (Routes rt). VpcPeeringConnectionId r = Some pcx) (route_tables w))
             None), w)"

definition test_delete_route :: "string \<Rightarrow> string \<Rightarrow> (region_state, unit) api" where
  "test_delete_route rtid cidr w =
     (Inr (), w\<lparr>route_tables := map (\<lambda>rt.
        if RouteTableId rt = rtid
        then rt\<lparr>Routes := filter (\<lambda>r. DestinationCidrBlock r \<noteq> Some cidr) (Routes rt)\<rparr>
        else rt) (route_tables w)\<rparr>)"

definition test_terminate_instances :: "string list \<Rightarrow> (region_state, unit) api" where
  "test_terminate_instances ids w =
     (Inr (), w\<lparr>reservations :=
        filter (\<lambda>is. is \<noteq> []) (map (filter (\<lambda>i. i \<notin> set ids)) (reservations w))\<rparr>)"

definition test_ec2 :: "region_state ec2" where
  "test_ec2 = \<lparr>
     describe_vpc_peering_connections =
       (\<lambda>w. (Inr (page_from (page_size w) (peering_connections w) None), w)),
     describe_route_tables = test_describe_route_tables,
     delete_route = test_delete_route,
     delete_vpc_peering_connection =
       (\<lambda>pcx w. (Inr (), w\<lparr>peering_connections := removeAll pcx (peering_connections w)\<rparr>)),
     describe_instances = (\<lambda>tok w. (Inr (page_from (page_size w) (reservations w) tok), w)),
     terminate_instances = test_terminate_instances,
     wait_instance_terminated = (\<lambda>ids w. (Inr (), w))\<rparr>"

subsection \<open>ECS\<close>

text \<open>
  A service or task carries a flag: \<open>False\<close> while it is active or running, \<open>True\<close> once
  its deletion or stop was requested and it is draining.  The listings answer the active
  ones; the waiters return once the draining ones are gone.
\<close>

definition services_of :: "string \<Rightarrow> region_state \<Rightarrow> (string \<times> bool) list" where
  "services_of c w = (case map_of (ecs_clusters w) c of None \<Rightarrow> [] | Some (ss, ts) \<Rightarrow> ss)"

definition tasks_of :: "string \<Rightarrow> region_state \<Rightarrow> (string \<times> bool) list" where
  "tasks_of c w = (case map_of (ecs_clusters w) c of None \<Rightarrow> [] | Some (ss, ts) \<Rightarrow> ts)"

definition in_cluster :: "string
    \<Rightarrow> ((string \<times> bool) list \<Rightarrow> (string \<times> bool) list)
    \<Rightarrow> ((string \<times> bool) list \<Rightarrow> (string \<times> bool) list)
    \<Rightarrow> region_state \<Rightarrow> region_state" where
  "in_cluster c f g w =
     w\<lparr>ecs_clusters := map (\<lambda>(n, ss, ts). if n = c then (n, f ss, g ts) else (n, ss, ts)) (ecs_clusters w)\<rparr>"

definition request :: "string \<Rightarrow> (string \<times> bool) list \<Rightarrow> (string \<times> bool) list" where
  "request x = map (\<lambda>(n, draining). if n = x then (n, True) else (n, draining))"

definition settle :: "string list \<Rightarrow> (string \<times> bool) list \<Rightarrow> (string \<times> bool) list" where
  "settle xs = filter (\<lambda>(n, draining). \<not> (n \<in> set xs \<and> draining))"

definition test_ecs_delete_cluster :: "string \<Rightarrow> (region_state, unit) api" where
  "test_ecs_delete_cluster c w =
     (if services_of c w \<noteq> []
      then (Inl (ClientError ''ClusterContainsServicesException''), w)
      else if tasks_of c w \<noteq> []
      then (Inl (ClientError ''ClusterContainsTasksException''), w)
      else (Inr (), w\<lparr>ecs_clusters := filter (\<lambda>(n, ss, ts). n \<noteq> c) (ecs_clusters w)\<rparr>))"

definition test_ecs :: "region_state ecs" where
  "test_ecs = \<lparr>
     ecs_list_clusters = (\<lambda>tok w. (Inr (page_from (page_size w) (map fst (ecs_clusters w)) tok), w)),
     list_services = (\<lambda>c tok w.
       (Inr (page_from (page_size w) (map fst (filter (\<lambda>(n, draining). \<not> draining) (services_of c w))) tok), w)),
     update_service = (\<lambda>c s n w. (Inr (), w)),
     delete_service = (\<lambda>c s force w. (Inr (), in_cluster c (request s) id w)),
     wait_services_inactive = (\<lambda>c ss w. (Inr (), in_cluster c (settle ss) id w)),
     list_tasks = (\<lambda>c tok w.
       (Inr (page_from (page_size w) (map fst (filter (\<lambda>(n, draining). \<not> draining) (tasks_of c w))) tok), w)),
     stop_task = (\<lambda>c t w. (Inr (), in_cluster c id (request t) w)),
     wait_tasks_stopped = (\<lambda>c ts w. (Inr (), in_cluster c id (settle ts) w)),
     ecs_delete_cluster = test_ecs_delete_cluster,
     wait_ecs_cluster_deleted = (\<lambda>cs w. (Inr (), w))\<rparr>"

definition test_boto3 :: "region_state boto3" where
  "test_boto3 = \<lparr>cloudformation_client = test_cloudformation, autoscaling_client = test_autoscaling,
     lambda_client = test_lambda, opensearch_client = test_opensearch, eks_client = test_eks,
     ec2_client = test_ec2, kinesis_client = test_kinesis, firehose_client = test_firehose,
     ecs_client = test_ecs\<rparr>"

subsection \<open>A scripted Lambda\<close>

text \<open>
  A provider whose state is the list of answers \<^verbatim>\<open>get_function\<close> still has to give, so
  that a function can outlive its delete call for some polls; once the list is used up the
  function is gone.  It lists two functions.
\<close>

definition scripted_lambda :: "(unit result list) lambda" where
  "scripted_lambda = \<lparr>
     list_functions = (\<lambda>tok w. (Inr ([''f1'', ''f2''], None), w)),
     delete_function = (\<lambda>name w. (Inr (), w)),
     get_function = (\<lambda>name w. case w of
         [] \<Rightarrow> (Inl (ResourceNotFoundException (''Function not found: '' @ name)), [])
       | r # rs \<Rightarrow> (r, rs))\<rparr>"

subsection \<open>Scenarios\<close>

definition three_stacks :: region_state where
  "three_stacks = empty_region\<lparr>stacks :=
     [(''AppPipe-prod'', ''CREATE_COMPLETE'', False),
      (''other-infra'', ''UPDATE_COMPLETE'', True),
      (''other-app'', ''CREATE_COMPLETE'', False)]\<rparr>"

definition one_eks_cluster :: region_state where
  "one_eks_cluster = empty_region\<lparr>eks_clusters := [(''k1'', [''ng-a'', ''ng-b''])]\<rparr>"

text \<open>
  One peering connection and one route table with a local route and a route to the
  connection that has an IPv6 destination, so no \<^verbatim>\<open>DestinationCidrBlock\<close>.
\<close>

definition ipv6_peering_route :: region_state where
  "ipv6_peering_route = empty_region\<lparr>
     peering_connections := [''pcx-1''],
     route_tables := [\<lparr>RouteTableId = ''rtb-1'', Routes =
       [\<lparr>VpcPeeringConnectionId = None, DestinationCidrBlock = Some ''10.0.0.0/16''\<rparr>,
        \<lparr>VpcPeeringConnectionId = Some ''pcx-1'', DestinationCidrBlock = None\<rparr>]\<rparr>]\<rparr>"

text \<open>Two stacks whose deletion failed before, one of them an application pipeline stack.\<close>

definition failed_stacks :: region_state where
  "failed_stacks = empty_region\<lparr>stacks :=
     [(''AppPipe-old'', ''DELETE_FAILED'', False),
      (''legacy'', ''DELETE_FAILED'', False),
      (''web'', ''CREATE_COMPLETE'', False)]\<rparr>"

text \<open>One application ingestion stack, with termination protection.\<close>

definition protected_ingestion_stack :: region_state where
  "protected_ingestion_stack = empty_region\<lparr>stacks :=
     [(''AppIngestion-core'', ''CREATE_COMPLETE'', True)]\<rparr>"

text \<open>
  A region whose listings answer one item per page, with two clusters without node groups,
  two peering connections without routes, two data streams and two delivery streams.
\<close>

definition two_pages :: region_state where
  "two_pages = empty_region\<lparr>page_size := 1,
     eks_clusters := [(''k1'', []), (''k2'', [])],
     peering_connections := [''pcx-1'', ''pcx-2''],
     streams := [''s1'', ''s2''],
     delivery_streams := [''d1'', ''d2'']\<rparr>"

text \<open>One cluster with two node groups, in a region that answers one item per page.\<close>

definition two_nodegroup_pages :: region_state where
  "two_nodegroup_pages = empty_region\<lparr>page_size := 1,
     eks_clusters := [(''k1'', [''ng-a'', ''ng-b''])]\<rparr>"

text \<open>One container cluster with one active service and one running task.\<close>

definition busy_cluster :: region_state where
  "busy_cluster = empty_region\<lparr>ecs_clusters := [(''c1'', [(''svc'', False)], [(''task'', False)])]\<rparr>"

text \<open>A region with one Auto Scaling group, one instance and one unprotected stack.\<close>

definition small_region :: region_state where
  "small_region = empty_region\<lparr>
     scaling_groups := [''g1''],
     reservations := [[''i-1'']],
     stacks := [(''web'', ''CREATE_COMPLETE'', False)]\<rparr>"

text \<open>
  One connection whose first route table holds a route to it with a block, and whose second
  route table holds a local route and a route to it without one.
\<close>

definition keyless_second_table :: region_state where
  "keyless_second_table = empty_region\<lparr>
     peering_connections := [''pcx-1''],
     route_tables :=
       [\<lparr>RouteTableId = ''rtb-1'', Routes =
          [\<lparr>VpcPeeringConnectionId = Some ''pcx-1'', DestinationCidrBlock = Some ''10.1.0.0/16''\<rparr>]\<rparr>,
        \<lparr>RouteTableId = ''rtb-2'', Routes =
          [\<lparr>VpcPeeringConnectionId = None, DestinationCidrBlock = Some ''10.0.0.0/16''\<rparr>,
           \<lparr>VpcPeeringConnectionId = Some ''pcx-1'', DestinationCidrBlock = None\<rparr>]\<rparr>]\<rparr>"

section \<open>Assertions over traces\<close>

definition hoare :: "(event list \<Rightarrow> bool) \<Rightarrow> ('w, 'a) prog \<Rightarrow> ('a \<Rightarrow> event list \<Rightarrow> bool)
    \<Rightarrow> (event list \<Rightarrow> bool) \<Rightarrow> bool" where
  "hoare P m Q E \<longleftrightarrow> (\<forall>w t. P t \<longrightarrow>
     (case m (w, t) of (Done x, w', t') \<Rightarrow> Q x t' | (Raised f, w', t') \<Rightarrow> E t' | (Cut, w', t') \<Rightarrow> E t'))"

definition each_prefixed :: "('a list \<Rightarrow> 'a \<Rightarrow> bool) \<Rightarrow> 'a list \<Rightarrow> bool" where
  "each_prefixed Q t \<longleftrightarrow> (\<forall>i<length t. Q (take i t) (t ! i))"

definition deletion_guarded :: "string \<Rightarrow> event list \<Rightarrow> event \<Rightarrow> bool" where
  "deletion_guarded region pre x \<longleftrightarrow> (\<forall>n r. x = Cfn (DeleteStack n r) \<longrightarrow>
     (\<exists>pre' d ds. pre = pre' @ [Cfn (DescribeStacks n (Inr (d # ds))),
                                Print (''Deleting stack: '' @ n @ '' in region '' @ region)]
        \<and> \<not> EnableTerminationProtection d))"

definition protected_answer :: "event \<Rightarrow> bool" where
  "protected_answer x \<longleftrightarrow> (\<exists>n d ds. x = Cfn (DescribeStacks n (Inr (d # ds))) \<and> EnableTerminationProtection d)"

definition skip_follows :: "string \<Rightarrow> event \<Rightarrow> event \<Rightarrow> bool" where
  "skip_follows region x y \<longleftrightarrow> (\<forall>n d ds. x = Cfn (DescribeStacks n (Inr (d # ds))) \<and> EnableTerminationProtection d
     \<longrightarrow> y = Print (''Skipping stack: '' @ n @ '' in region '' @ region @ '' due to termination protection''))"

definition stack_inv :: "string \<Rightarrow> event list \<Rightarrow> bool" where
  "stack_inv region t \<longleftrightarrow> each_prefixed (deletion_guarded region) t \<and> successively (skip_follows region) t
     \<and> (t = [] \<or> \<not> protected_answer (last t))"

subsection \<open>Managed Kubernetes teardown\<close>

definition nodegroup_steps :: "string \<Rightarrow> string \<Rightarrow> event list" where
  "nodegroup_steps c g =
     [Print (''Deleting node group: '' @ g @ '' in cluster: '' @ c),
      Eks (DeleteNodegroup c g (Inr ())),
      Eks (WaitNodegroupDeleted c g (Inr ()))]"

definition cluster_delete_prepared :: "string \<Rightarrow> event list \<Rightarrow> event \<Rightarrow> bool" where
  "cluster_delete_prepared region pre x \<longleftrightarrow> (\<forall>c r. x = Eks (EksDeleteCluster c r) \<longrightarrow>
     (\<exists>pre0 gs nx. pre = pre0 @ Eks (ListNodegroups c (Inr (gs, nx)))
          # concat (map (nodegroup_steps c) gs)
          @ [Print (''Deleting EKS cluster: '' @ c @ '' in region '' @ region)]))"

definition wait_follows :: "event \<Rightarrow> event \<Rightarrow> bool" where
  "wait_follows x y \<longleftrightarrow> (\<forall>c g. x = Eks (DeleteNodegroup c g (Inr ())) \<longrightarrow>
     (\<exists>r. y = Eks (WaitNodegroupDeleted c g r)))"

definition nodegroup_deleted :: "event \<Rightarrow> bool" where
  "nodegroup_deleted x \<longleftrightarrow> (\<exists>c g. x = Eks (DeleteNodegroup c g (Inr ())))"

definition eks_inv :: "string \<Rightarrow> event list \<Rightarrow> bool" where
  "eks_inv region t \<longleftrightarrow> each_prefixed (cluster_delete_prepared region) t
     \<and> successively wait_follows t \<and> (t = [] \<or> \<not> nodegroup_deleted (last t))"

definition nodegroups_done :: "string \<Rightarrow> string \<Rightarrow> string list \<Rightarrow> string list \<Rightarrow> event list \<Rightarrow> bool" where
  "nodegroups_done region c gs done t \<longleftrightarrow> eks_inv region t
     \<and> (\<exists>pre0 nx. t = pre0 @ Eks (ListNodegroups c (Inr (gs, nx))) # concat (map (nodegroup_steps c) done))"

subsection \<open>Serverless function teardown\<close>

definition polls :: "string \<Rightarrow> nat \<Rightarrow> event list" where
  "polls function_name k = concat (replicate k [Lam (GetFunction function_name (Inr ())), Sleep 5])"

fun poll_log :: "string \<Rightarrow> string \<Rightarrow> fault \<Rightarrow> string" where
  "poll_log region function_name (ResourceNotFoundException m) =
     ''Deleted Lambda function: '' @ function_name @ '' in region '' @ region"
| "poll_log region function_name e = ''Error checking function status: '' @ fault_text e"

definition lambda_next :: "string \<Rightarrow> event \<Rightarrow> event \<Rightarrow> bool" where
  "lambda_next region x y \<longleftrightarrow>
     (\<forall>fn. x = Lam (DeleteFunction fn (Inr ())) \<longrightarrow> (\<exists>r. y = Lam (GetFunction fn r)))
   \<and> (\<forall>fn e. x = Lam (GetFunction fn (Inl e)) \<longrightarrow> y = Print (poll_log region fn e))
   \<and> (\<forall>fn. x = Lam (GetFunction fn (Inr ())) \<longrightarrow> y = Sleep 5)"

definition lambda_pending :: "event \<Rightarrow> bool" where
  "lambda_pending x \<longleftrightarrow> (\<exists>fn. x = Lam (DeleteFunction fn (Inr ()))) \<or> (\<exists>fn r. x = Lam (GetFunction fn r))"

definition lambda_inv :: "string \<Rightarrow> event list \<Rightarrow> bool" where
  "lambda_inv region t \<longleftrightarrow> successively (lambda_next region) t \<and> (t = [] \<or> \<not> lambda_pending (last t))"

definition lambda_polling :: "string \<Rightarrow> string \<Rightarrow> nat \<Rightarrow> event list \<Rightarrow> bool" where
  "lambda_polling region fn k t \<longleftrightarrow> successively (lambda_next region) t \<and> t \<noteq> []
     \<and> (last t = Sleep 5 \<or> (last t = Lam (DeleteFunction fn (Inr ())) \<and> 0 < k))"

subsection \<open>Status filters of the two stack passes\<close>

definition listed_for :: "event list \<Rightarrow> string list \<Rightarrow> string \<Rightarrow> stack_summary \<Rightarrow> bool" where
  "listed_for t statuses n s \<longleftrightarrow> StackName s = n
     \<and> (\<exists>tok ss nx. Cfn (ListStacks statuses tok (Inr (ss, nx))) \<in> set t \<and> s \<in> set ss)"

definition delete_justified :: "event list \<Rightarrow> string \<Rightarrow> bool" where
  "delete_justified t n \<longleftrightarrow> (\<exists>s.
       listed_for t first_pass_statuses n s \<and> in_first_pass n
     \<or> listed_for t second_pass_statuses n s \<and> in_second_pass n)"

definition filters_inv :: "event list \<Rightarrow> bool" where
  "filters_inv t \<longleftrightarrow>
     (\<forall>f tok r. Cfn (ListStacks f tok r) \<in> set t \<longrightarrow> f = first_pass_statuses \<or> f = second_pass_statuses)
   \<and> (\<forall>n r. Cfn (DeleteStack n r) \<in> set t \<longrightarrow> delete_justified t n)"

definition page_listed :: "string list \<Rightarrow> stack_summary list \<Rightarrow> event list \<Rightarrow> bool" where
  "page_listed statuses ss t \<longleftrightarrow> filters_inv t
     \<and> (\<exists>tok nx. Cfn (ListStacks statuses tok (Inr (ss, nx))) \<in> set t)"

subsection \<open>A region that holds nothing\<close>

text \<open>
  Every listing the driver starts with answers an empty first page, with no token, and leaves
  the provider's state as it was; \<open>empty_run\<close> is the trace of those listings in the
  driver's order.
\<close>

definition answers_nothing :: "'w boto3 \<Rightarrow> 'w \<Rightarrow> bool" where
  "answers_nothing b w \<longleftrightarrow>
     describe_auto_scaling_groups (autoscaling_client b) None w = (Inr ([], None), w)
   \<and> ecs_list_clusters (ecs_client b) None w = (Inr ([], None), w)
   \<and> describe_instances (ec2_client b) None w = (Inr ([], None), w)
   \<and> list_functions (lambda_client b) None w = (Inr ([], None), w)
   \<and> describe_vpc_peering_connections (ec2_client b) w = (Inr ([], None), w)
   \<and> list_domain_names (opensearch_client b) w = (Inr [], w)
   \<and> list_streams (kinesis_client b) w = (Inr ([], None), w)
   \<and> list_delivery_streams (firehose_client b) w = (Inr ([], None), w)
   \<and> eks_list_clusters (eks_client b) w = (Inr ([], None), w)
   \<and> list_stacks (cloudformation_client b) first_pass_statuses None w = (Inr ([], None), w)
   \<and> list_stacks (cloudformation_client b) second_pass_statuses None w = (Inr ([], None), w)"

definition empty_run :: "event list" where
  "empty_run =
    [Asg (DescribeAutoScalingGroups None (Inr ([], None))),
     Ecs (EcsListClusters None (Inr ([], None))),
     Ec2 (DescribeInstances None (Inr ([], None))),
     Lam (ListFunctions None (Inr ([], None))),
     Peer (DescribeVpcPeeringConnections (Inr ([], None))),
     Ops (ListDomainNames (Inr [])),
     Kin (ListStreams (Inr ([], None))),
     Kin (ListDeliveryStreams (Inr ([], None))),
     Eks (EksListClusters (Inr ([], None))),
     Cfn (ListStacks first_pass_statuses None (Inr ([], None))),
     Cfn (ListStacks second_pass_statuses None (Inr ([], None)))]"

subsection \<open>Routes of a peering connection\<close>

text \<open>
  A route is key-less for a connection when it carries the connection's id and no
  \<^verbatim>\<open>DestinationCidrBlock\<close>.  A route event is a \<^verbatim>\<open>delete_route\<close> call or the log line
  of a deleted route.  A run ends with a route fault when its outcome is the \<^verbatim>\<open>KeyError\<close>
  of the missing key, or the fault the provider answered to the last \<^verbatim>\<open>delete_route\<close>
  call.  \<open>tables_clean\<close> and \<open>peering_ok\<close> are the invariants of the loops: no answered
  listing of route tables so far holds a key-less route, or the first one that does is
  followed by route events only and the run ended with a route fault.
\<close>

definition keyless_route :: "string \<Rightarrow> route \<Rightarrow> bool" where
  "keyless_route pcx r \<longleftrightarrow> VpcPeeringConnectionId r = Some pcx \<and> DestinationCidrBlock r = None"

definition keyless_tables :: "string \<Rightarrow> route_table list \<Rightarrow> bool" where
  "keyless_tables pcx tables \<longleftrightarrow> (\<exists>rt \<in> set tables. \<exists>r \<in> set (Routes rt). keyless_route pcx r)"

definition route_event :: "event \<Rightarrow> bool" where
  "route_event e \<longleftrightarrow> (\<exists>rtid cidr res. e = Peer (DeleteRoute rtid cidr res))
     \<or> (\<exists>cidr rtid. e = Print (''Deleted route: '' @ cidr @ '' in route table: '' @ rtid))"

definition route_fault :: "unit outcome \<Rightarrow> event list \<Rightarrow> bool" where
  "route_fault out es \<longleftrightarrow> out = Raised (KeyError ''DestinationCidrBlock'')
     \<or> (\<exists>rtid cidr f. es \<noteq> [] \<and> last es = Peer (DeleteRoute rtid cidr (Inl f)) \<and> out = Raised f)"

definition tables_clean :: "event list \<Rightarrow> bool" where
  "tables_clean t \<longleftrightarrow> (\<forall>pcx tables nx.
     Peer (DescribeRouteTables pcx (Inr (tables, nx))) \<in> set t \<longrightarrow> \<not> keyless_tables pcx tables)"

definition peering_ok :: "unit outcome \<Rightarrow> event list \<Rightarrow> bool" where
  "peering_ok out t \<longleftrightarrow> (\<forall>i<length t. \<forall>pcx tables nx.
     t ! i = Peer (DescribeRouteTables pcx (Inr (tables, nx))) \<and> keyless_tables pcx tables \<longrightarrow>
       (\<forall>e \<in> set (drop (Suc i) t). route_event e) \<and> route_fault out (drop (Suc i) t))"

subsection \<open>Container clusters\<close>

text \<open>
  What a trace says about a service or task of a cluster: it was listed (it is an item of a
  page answered to \<^verbatim>\<open>list_services\<close> or \<^verbatim>\<open>list_tasks\<close> for the cluster), its removal
  was requested (the \<^verbatim>\<open>update_service\<close> and \<^verbatim>\<open>delete_service\<close> calls, or the
  \<^verbatim>\<open>stop_task\<close> call, returned), it was awaited (the waiter returned).  A cluster is
  cleared when every listed service and task was requested and awaited, prepared when each
  was requested and, if \<open>wait\<close> holds, awaited.  \<open>ecs_state\<close> is the invariant of the
  loops: every cluster delete call so far found its cluster prepared, and every listed item
  is done or still pending in the page being processed.
\<close>

definition service_listed :: "event list \<Rightarrow> string \<Rightarrow> string \<Rightarrow> bool" where
  "service_listed t c s \<longleftrightarrow> (\<exists>tok ss nx. Ecs (ListServices c tok (Inr (ss, nx))) \<in> set t \<and> s \<in> set ss)"

definition task_listed :: "event list \<Rightarrow> string \<Rightarrow> string \<Rightarrow> bool" where
  "task_listed t c x \<longleftrightarrow> (\<exists>tok xs nx. Ecs (ListTasks c tok (Inr (xs, nx))) \<in> set t \<and> x \<in> set xs)"

definition service_requested :: "event list \<Rightarrow> string \<Rightarrow> string \<Rightarrow> bool" where
  "service_requested t c s \<longleftrightarrow> Ecs (UpdateService c s 0 (Inr ())) \<in> set t
     \<and> Ecs (DeleteService c s True (Inr ())) \<in> set t"

definition service_awaited :: "event list \<Rightarrow> string \<Rightarrow> string \<Rightarrow> bool" where
  "service_awaited t c s \<longleftrightarrow> Ecs (WaitServicesInactive c [s] (Inr ())) \<in> set t"

definition task_requested :: "event list \<Rightarrow> string \<Rightarrow> string \<Rightarrow> bool" where
  "task_requested t c x \<longleftrightarrow> Ecs (StopTask c x (Inr ())) \<in> set t"

definition task_awaited :: "event list \<Rightarrow> string \<Rightarrow> string \<Rightarrow> bool" where
  "task_awaited t c x \<longleftrightarrow> Ecs (WaitTasksStopped c [x] (Inr ())) \<in> set t"

definition cluster_cleared :: "event list \<Rightarrow> string \<Rightarrow> bool" where
  "cluster_cleared pre c \<longleftrightarrow>
     (\<forall>s. service_listed pre c s \<longrightarrow> service_requested pre c s \<and> service_awaited pre c s)
   \<and> (\<forall>x. task_listed pre c x \<longrightarrow> task_requested pre c x \<and> task_awaited pre c x)"

definition service_ok :: "bool \<Rightarrow> event list \<Rightarrow> string \<Rightarrow> string \<Rightarrow> bool" where
  "service_ok wait t c s \<longleftrightarrow> service_requested t c s \<and> (wait \<longrightarrow> service_awaited t c s)"

definition task_ok :: "bool \<Rightarrow> event list \<Rightarrow> string \<Rightarrow> string \<Rightarrow> bool" where
  "task_ok wait t c x \<longleftrightarrow> task_requested t c x \<and> (wait \<longrightarrow> task_awaited t c x)"

definition cluster_prepared :: "bool \<Rightarrow> event list \<Rightarrow> string \<Rightarrow> bool" where
  "cluster_prepared wait pre c \<longleftrightarrow>
     (\<forall>s. service_listed pre c s \<longrightarrow> service_ok wait pre c s)
   \<and> (\<forall>x. task_listed pre c x \<longrightarrow> task_ok wait pre c x)"

definition cluster_delete_guarded :: "bool \<Rightarrow> event list \<Rightarrow> event \<Rightarrow> bool" where
  "cluster_delete_guarded wait pre e \<longleftrightarrow> (\<forall>c r. e = Ecs (EcsDeleteCluster c r) \<longrightarrow> cluster_prepared wait pre c)"

definition ecs_inv :: "bool \<Rightarrow> event list \<Rightarrow> bool" where
  "ecs_inv wait t \<longleftrightarrow> each_prefixed (cluster_delete_guarded wait) t"

definition ecs_quiet :: "event \<Rightarrow> bool" where
  "ecs_quiet e \<longleftrightarrow> (\<forall>c r. e \<noteq> Ecs (EcsDeleteCluster c r))
     \<and> (\<forall>c tok ss nx. e \<noteq> Ecs (ListServices c tok (Inr (ss, nx))))
     \<and> (\<forall>c tok xs nx. e \<noteq> Ecs (ListTasks c tok (Inr (xs, nx))))"

definition ecs_state :: "bool \<Rightarrow> (string \<times> string) set \<Rightarrow> (string \<times> string) set \<Rightarrow> event list \<Rightarrow> bool" where
  "ecs_state wait ps pt t \<longleftrightarrow> ecs_inv wait t
     \<and> (\<forall>c s. service_listed t c s \<longrightarrow> service_ok wait t c s \<or> (c, s) \<in> ps)
     \<and> (\<forall>c x. task_listed t c x \<longrightarrow> task_ok wait t c x \<or> (c, x) \<in> pt)"

text \<open>The three waiters of the container cluster teardown.\<close>

definition ecs_waiter :: "event \<Rightarrow> bool" where
  "ecs_waiter e \<longleftrightarrow> (\<exists>c ss r. e = Ecs (WaitServicesInactive c ss r))
     \<or> (\<exists>c xs r. e = Ecs (WaitTasksStopped c xs r))
     \<or> (\<exists>cs r. e = Ecs (WaitEcsClusterDeleted cs r))"

subsection \<open>The procedures of the driver\<close>

text \<open>
  Every call event belongs to one procedure: the procedures use disjoint sets of operations
  (the two that share the EC2 client, instance and peering teardown, call different
  operations of it).  Log lines and sleeps belong to none.  \<open>procedures t\<close> is the
  procedure of each call of the trace, in order, so that its runs of equal neighbours are the
  procedures as the driver went through them.  An event is blocking when it is the instance
  or the stack waiter; \<open>emits A m\<close> says that \<open>m\<close> only appends events that satisfy
  \<open>A\<close> to the trace, whatever the provider answers.
\<close>

datatype procedure =
    AutoScalingGroups | ContainerClusters | ComputeInstances | ServerlessFunctions
  | NetworkPeering | SearchClusters | StreamingPipelines | KubernetesClusters | CloudFormationStacks

definition procedure_of :: "event \<Rightarrow> procedure option" where
  "procedure_of e = (case e of
       Asg _ \<Rightarrow> Some AutoScalingGroups
     | Ecs _ \<Rightarrow> Some ContainerClusters
     | Ec2 _ \<Rightarrow> Some ComputeInstances
     | Lam _ \<Rightarrow> Some ServerlessFunctions
     | Peer _ \<Rightarrow> Some NetworkPeering
     | Ops _ \<Rightarrow> Some SearchClusters
     | Kin _ \<Rightarrow> Some StreamingPipelines
     | Eks _ \<Rightarrow> Some KubernetesClusters
     | Cfn _ \<Rightarrow> Some CloudFormationStacks
     | Print _ \<Rightarrow> None
     | Sleep _ \<Rightarrow> None)"

definition procedures :: "event list \<Rightarrow> procedure list" where
  "procedures t = List.map_filter procedure_of t"

definition driver_order :: "procedure list" where
  "driver_order = [AutoScalingGroups, ContainerClusters, ComputeInstances, ServerlessFunctions,
     NetworkPeering, SearchClusters, StreamingPipelines, KubernetesClusters, CloudFormationStacks]"

definition blocking :: "event \<Rightarrow> bool" where
  "blocking e \<longleftrightarrow> (\<exists>ids r. e = Ec2 (WaitInstanceTerminated ids r))
     \<or> (\<exists>n r. e = Cfn (WaitStackDeleteComplete n r))"

definition within :: "procedure \<Rightarrow> event \<Rightarrow> bool" where
  "within p e \<longleftrightarrow> (procedure_of e = None \<or> procedure_of e = Some p) \<and> \<not> blocking e"

definition emits :: "(event \<Rightarrow> bool) \<Rightarrow> ('w, 'a) prog \<Rightarrow> bool" where
  "emits A m \<longleftrightarrow> (\<forall>w t. \<exists>es. snd (snd (m (w, t))) = t @ es \<and> (\<forall>e \<in> set es. A e))"

definition reached :: "procedure list \<Rightarrow> event list \<Rightarrow> bool" where
  "reached ps t \<longleftrightarrow> remdups_adj (procedures t) = ps \<and> (\<forall>e \<in> set t. \<not> blocking e)"

text \<open>
  A program is framed when what it does and appends does not depend on the trace it starts
  from, so that its run can be taken by itself.
\<close>

definition framed :: "('w, 'a) prog \<Rightarrow> bool" where
  "framed m \<longleftrightarrow> (\<forall>w t. m (w, t) = (case m (w, []) of (out, w', es) \<Rightarrow> (out, w', t @ es)))"

text \<open>
  Running a list of procedures one after the other: each starts in the provider state the one
  before left, the traces follow one another, and the first procedure that does not return
  normally ends the run, with its outcome.
\<close>

fun run_each :: "('w, unit) prog list \<Rightarrow> 'w \<Rightarrow> unit outcome \<times> 'w \<times> event list" where
  "run_each [] w = (Done (), w, [])"
| "run_each (m # ms) w = (case run m w of
       (Done u, w', es) \<Rightarrow> (case run_each ms w' of (out, w'', es') \<Rightarrow> (out, w'', es @ es'))
     | (Raised f, w', es) \<Rightarrow> (Raised f, w', es)
     | (Cut, w', es) \<Rightarrow> (Cut, w', es))"

text \<open>
  The order of the specification, to compare \<open>main\<close> with: Auto Scaling groups, container
  clusters, compute instances without waiting, serverless functions, network peering, search
  clusters, streaming pipelines, Kubernetes clusters and last the CloudFormation stacks
  without waiting (the container clusters with \<^verbatim>\<open>wait=True\<close> and the Kubernetes clusters
  with the default \<^verbatim>\<open>wait=False\<close>, as the source passes them), all in region
  \<^verbatim>\<open>cn-north-1\<close>.
\<close>

definition driver_contract :: "'w boto3 \<Rightarrow> nat \<Rightarrow> ('w, unit) prog list" where
  "driver_contract b fuel =
     [delete_all_auto_scaling_groups (autoscaling_client b) fuel ''cn-north-1'',
      delete_all_ecs_clusters (ecs_client b) fuel ''cn-north-1'' True,
      terminate_all_ec2_instances (ec2_client b) fuel ''cn-north-1'' False,
      delete_all_lambda_functions (lambda_client b) fuel ''cn-north-1'',
      delete_all_peering_connections (ec2_client b) ''cn-north-1'',
      delete_all_opensearch_clusters (opensearch_client b) ''cn-north-1'',
      delete_all_kinesis_streams (kinesis_client b) (firehose_client b) ''cn-north-1'',
      delete_all_eks_clusters (eks_client b) ''cn-north-1'' False,
      delete_all_stacks (cloudformation_client b) fuel ''cn-north-1'' False]"

section \<open>Rules for runs\<close>

lemma hoareI:
  "(\<And>w t. P t \<Longrightarrow> (case m (w, t) of (Done x, w', t') \<Rightarrow> Q x t' | (Raised f, w', t') \<Rightarrow> E t' | (Cut, w', t') \<Rightarrow> E t')) \<Longrightarrow> hoare P m Q E"
  by (simp add: hoare_def)

lemma hoare_ret: "(\<And>t. P t \<Longrightarrow> Q x t) \<Longrightarrow> hoare P (ret x) Q E"
  by (simp add: hoare_def ret_def)

lemma hoare_raise: "(\<And>t. P t \<Longrightarrow> E t) \<Longrightarrow> hoare P (raise f) Q E"
  by (simp add: hoare_def raise_def)

lemma hoare_bind:
  assumes "hoare P m R E" and "\<And>x. hoare (R x) (f x) Q E"
  shows "hoare P (bind m f) Q E"
  unfolding hoare_def
proof (intro allI impI)
  fix w t assume "P t"
  with assms(1) have m: "case m (w, t) of (Done x, w', t') \<Rightarrow> R x t' | (Raised f, w', t') \<Rightarrow> E t' | (Cut, w', t') \<Rightarrow> E t'"
    by (simp add: hoare_def)
  obtain r w' t' where eq: "m (w, t) = (r, w', t')" by (cases "m (w, t)") auto
  show "case bind m f (w, t) of (Done x, w', t') \<Rightarrow> Q x t' | (Raised f, w', t') \<Rightarrow> E t' | (Cut, w', t') \<Rightarrow> E t'"
  proof (cases r)
    case (Done x)
    with m eq have "R x t'" by simp
    with assms(2)[of x] have "case f x (w', t') of (Done x, w', t') \<Rightarrow> Q x t' | (Raised f, w', t') \<Rightarrow> E t' | (Cut, w', t') \<Rightarrow> E t'"
      by (simp add: hoare_def)
    with Done eq show ?thesis by (simp add: bind_def)
  next
    case (Raised e) with m eq show ?thesis by (simp add: bind_def)
  next
    case Cut with m eq show ?thesis by (simp add: bind_def)
  qed
qed

lemma hoare_seq:
  "hoare P m (\<lambda>_. R) E \<Longrightarrow> hoare R n Q E \<Longrightarrow> hoare P (seq m n) Q E"
  unfolding seq_def by (rule hoare_bind)

lemma hoare_call:
  assumes "\<And>t x. P t \<Longrightarrow> Q x (t @ [ev (Inr x)])" and "\<And>t f. P t \<Longrightarrow> E (t @ [ev (Inl f)])"
  shows "hoare P (call ev op) Q E"
  using assms by (auto simp: hoare_def call_def split: prod.splits sum.splits)

lemma hoare_print: "(\<And>t. P t \<Longrightarrow> Q () (t @ [Print msg])) \<Longrightarrow> hoare P (print msg) Q E"
  by (simp add: hoare_def print_def)

lemma hoare_sleep: "(\<And>t. P t \<Longrightarrow> Q () (t @ [Sleep n])) \<Longrightarrow> hoare P (sleep n) Q E"
  by (simp add: hoare_def sleep_def)

lemma hoare_weaken:
  "hoare P' m Q' E' \<Longrightarrow> (\<And>t. P t \<Longrightarrow> P' t) \<Longrightarrow> (\<And>x t. Q' x t \<Longrightarrow> Q x t) \<Longrightarrow> (\<And>t. E' t \<Longrightarrow> E t)
    \<Longrightarrow> hoare P m Q E"
  unfolding hoare_def
  by (fastforce split: prod.splits outcome.splits)

lemma hoare_for_each_prefix:
  assumes "\<And>ys x zs. xs = ys @ x # zs \<Longrightarrow> hoare (I ys) (body x) (\<lambda>_. I (ys @ [x])) E"
  shows "hoare (I []) (for_each xs body) (\<lambda>_. I xs) E"
  using assms
proof (induction xs arbitrary: I)
  case Nil
  then show ?case by (simp add: hoare_ret)
next
  case (Cons x xs)
  have head: "hoare (I []) (body x) (\<lambda>_. I [x]) E"
    using Cons.prems[of "[]" x xs] by simp
  have "hoare ((\<lambda>ys. I (x # ys)) []) (for_each xs body) (\<lambda>_. (\<lambda>ys. I (x # ys)) xs) E"
  proof (rule Cons.IH)
    fix ys y zs assume "xs = ys @ y # zs"
    then show "hoare (I (x # ys)) (body y) (\<lambda>_. I (x # ys @ [y])) E"
      using Cons.prems[of "x # ys" y zs] by simp
  qed
  with head show ?case by (simp add: hoare_seq)
qed

lemma hoare_for_each:
  assumes "\<And>x. x \<in> set xs \<Longrightarrow> hoare I (body x) (\<lambda>_. I) E"
  shows "hoare I (for_each xs body) (\<lambda>_. I) E"
  by (rule hoare_for_each_prefix[where I = "\<lambda>_. I"]) (simp add: assms)

lemma hoare_for_pages:
  assumes fetch: "\<And>tok. hoare I (fetch tok) J E"
    and body: "\<And>items next. hoare (J (items, next)) (body items) (\<lambda>_. I) E"
    and cut: "\<And>t. I t \<Longrightarrow> E t"
  shows "hoare I (for_pages n fetch body tok) (\<lambda>_. I) E"
proof (induction n arbitrary: tok)
  case 0
  then show ?case by (simp add: hoare_def cut_def cut)
next
  case (Suc n)
  show ?case
    apply simp
    apply (rule hoare_bind[OF fetch])
    apply (clarsimp)
    apply (rule hoare_seq[OF body])
    apply (simp split: option.split add: hoare_ret Suc.IH)
    done
qed

lemma hoare_run:
  assumes h: "hoare P m Q E" and p: "P []"
    and q: "\<And>x t. Q x t \<Longrightarrow> R t" and e: "\<And>t. E t \<Longrightarrow> R t"
  shows "R (trace_of m w)"
proof -
  obtain r w' t' where eq: "m (w, []) = (r, w', t')" by (cases "m (w, [])") auto
  have c: "case m (w, []) of (Done x, w', t') \<Rightarrow> Q x t' | (Raised f, w', t') \<Rightarrow> E t' | (Cut, w', t') \<Rightarrow> E t'"
    by (rule h[unfolded hoare_def, rule_format, OF p])
  have "R t'"
  proof (cases r)
    case (Done x) with c eq show ?thesis by (simp add: q)
  next
    case (Raised f) with c eq show ?thesis by (simp add: e)
  next
    case Cut with c eq show ?thesis by (simp add: e)
  qed
  with eq show ?thesis by (simp add: trace_of_def run_def)
qed

lemma successively_nth:
  "successively R t \<Longrightarrow> Suc i < length t \<Longrightarrow> R (t ! i) (t ! Suc i)"
  by (simp add: successively_conv_nth)

lemma followed_at:
  assumes s: "successively R t" and l: "t = [] \<or> \<not> P (last t)" and i: "i < length t" and p: "P (t ! i)"
  shows "Suc i < length t \<and> R (t ! i) (t ! Suc i)"
proof -
  have nl: "Suc i < length t"
  proof (rule ccontr)
    assume "\<not> Suc i < length t"
    with i have il: "i = length t - 1" by arith
    from i have ne: "t \<noteq> []" by auto
    from ne il have "last t = t ! i" by (simp add: last_conv_nth)
    with ne l p show False by simp
  qed
  with successively_nth[OF s nl] show ?thesis by simp
qed

lemma seqE:
  assumes "seq m n s = (out, s'')"
  obtains x s' where "m s = (Done x, s')" and "n s' = (out, s'')"
  | f where "m s = (Raised f, s'')" and "out = Raised f"
  | "m s = (Cut, s'')" and "out = Cut"
proof -
  obtain r s' where eq: "m s = (r, s')" by (cases "m s") auto
  show ?thesis
  proof (cases r)
    case (Done x) with assms eq that(1) show ?thesis by (simp add: seq_def bind_def)
  next
    case (Raised f) with assms eq that(2) show ?thesis by (simp add: seq_def bind_def)
  next
    case Cut with assms eq that(3) show ?thesis by (simp add: seq_def bind_def)
  qed
qed

lemma bindE:
  assumes "bind m k s = (out, s'')"
  obtains x s' where "m s = (Done x, s')" and "k x s' = (out, s'')"
  | f where "m s = (Raised f, s'')" and "out = Raised f"
  | "m s = (Cut, s'')" and "out = Cut"
proof -
  obtain r s' where eq: "m s = (r, s')" by (cases "m s") auto
  show ?thesis
  proof (cases r)
    case (Done x) with assms eq that(1) show ?thesis by (simp add: bind_def)
  next
    case (Raised f) with assms eq that(2) show ?thesis by (simp add: bind_def)
  next
    case Cut with assms eq that(3) show ?thesis by (simp add: bind_def)
  qed
qed

lemma callE:
  assumes "call ev op (w, t) = (out, w', t')"
  obtains x where "op w = (Inr x, w')" and "out = Done x" and "t' = t @ [ev (Inr x)]"
  | f where "op w = (Inl f, w')" and "out = Raised f" and "t' = t @ [ev (Inl f)]"
proof -
  obtain r w1 where eq: "op w = (r, w1)" by (cases "op w") auto
  show ?thesis
  proof (cases r)
    case (Inl f) with assms eq that(2) show ?thesis by (simp add: call_def)
  next
    case (Inr x) with assms eq that(1) show ?thesis by (simp add: call_def)
  qed
qed

lemma printD: "print msg (w, t) = (out, w', t') \<Longrightarrow> out = Done () \<and> w' = w \<and> t' = t @ [Print msg]"
  by (auto simp: print_def)

section \<open>What a program may append to the trace\<close>

lemma emits_ret: "emits A (ret x)"
  by (simp add: emits_def ret_def)

lemma emits_raise: "emits A (raise f)"
  by (simp add: emits_def raise_def)

lemma emits_cut: "emits A cut"
  by (simp add: emits_def cut_def)

lemma emits_print: "A (Print msg) \<Longrightarrow> emits A (print msg)"
  by (simp add: emits_def print_def)

lemma emits_sleep: "A (Sleep n) \<Longrightarrow> emits A (sleep n)"
  by (simp add: emits_def sleep_def)

lemma emits_call: "(\<And>r. A (ev r)) \<Longrightarrow> emits A (call ev op)"
  by (auto simp: emits_def call_def split: prod.splits sum.splits)

lemma emits_bind:
  assumes m: "emits A m" and f: "\<And>x. emits A (f x)"
  shows "emits A (bind m f)"
  unfolding emits_def
proof (intro allI)
  fix w t
  obtain r w' t' where eq: "m (w, t) = (r, w', t')" by (cases "m (w, t)") auto
  from m[unfolded emits_def, rule_format, of w t] eq
  obtain es where es: "t' = t @ es" "\<forall>e \<in> set es. A e" by auto
  show "\<exists>es. snd (snd (bind m f (w, t))) = t @ es \<and> (\<forall>e \<in> set es. A e)"
  proof (cases r)
    case (Done x)
    from f[of x, unfolded emits_def, rule_format, of w' t']
    obtain es' where es': "snd (snd (f x (w', t'))) = t' @ es'" "\<forall>e \<in> set es'. A e" by auto
    have "snd (snd (bind m f (w, t))) = t @ (es @ es')"
      using Done eq es es' by (simp add: bind_def)
    moreover have "\<forall>e \<in> set (es @ es'). A e" using es es' by auto
    ultimately show ?thesis by blast
  next
    case (Raised e) with eq es show ?thesis by (auto simp: bind_def)
  next
    case Cut with eq es show ?thesis by (auto simp: bind_def)
  qed
qed

lemma emits_seq: "emits A m \<Longrightarrow> emits A n \<Longrightarrow> emits A (seq m n)"
  unfolding seq_def by (rule emits_bind)

lemma emits_attempt: "emits A m \<Longrightarrow> emits A (attempt m)"
  unfolding emits_def attempt_def
proof (intro allI)
  fix w t assume a: "\<forall>w t. \<exists>es. snd (snd (m (w, t))) = t @ es \<and> (\<forall>e \<in> set es. A e)"
  obtain r w' t' where eq: "m (w, t) = (r, w', t')" by (cases "m (w, t)") auto
  from a[rule_format, of w t] eq obtain es where "t' = t @ es" "\<forall>e \<in> set es. A e" by auto
  with eq show "\<exists>es. snd (snd (case m (w, t) of (Done x, s') \<Rightarrow> (Done (Inr x), s')
        | (Raised e, s') \<Rightarrow> (Done (Inl e), s') | (Cut, s') \<Rightarrow> (Cut, s'))) = t @ es \<and> (\<forall>e \<in> set es. A e)"
    by (cases r) auto
qed

lemma emits_if: "emits A m \<Longrightarrow> emits A n \<Longrightarrow> emits A (if b then m else n)"
  by simp

lemma emits_case_prod: "(\<And>a b. emits A (f a b)) \<Longrightarrow> emits A (case_prod f p)"
  by (cases p) simp

lemma emits_case_list:
  "emits A m \<Longrightarrow> (\<And>x xs. emits A (f x xs)) \<Longrightarrow> emits A (case l of [] \<Rightarrow> m | x # xs \<Rightarrow> f x xs)"
  by (cases l) simp_all

lemma emits_case_option:
  "emits A m \<Longrightarrow> (\<And>x. emits A (f x)) \<Longrightarrow> emits A (case v of None \<Rightarrow> m | Some x \<Rightarrow> f x)"
  by (cases v) simp_all

lemma emits_for_each: "(\<And>x. emits A (body x)) \<Longrightarrow> emits A (for_each xs body)"
  by (induction xs) (simp_all add: emits_ret emits_seq)

lemma emits_for_pages:
  assumes "\<And>tok. emits A (fetch tok)" and "\<And>items. emits A (body items)"
  shows "emits A (for_pages n fetch body tok)"
proof (induction n arbitrary: tok)
  case 0
  show ?case by (simp add: emits_cut)
next
  case (Suc n)
  show ?case
    by (simp, intro emits_bind emits_case_prod emits_seq emits_case_option emits_ret assms Suc.IH)
qed

lemma emits_poll_function:
  assumes "\<And>r. A (Lam (GetFunction fn r))" and "\<And>msg. A (Print msg)" and "\<And>n. A (Sleep n)"
  shows "emits A (poll_function n client region fn)"
proof (induction n)
  case 0
  show ?case by (simp add: emits_cut)
next
  case (Suc n)
  have k: "emits A (case r of
           Inl (ResourceNotFoundException m) \<Rightarrow>
             print (''Deleted Lambda function: '' @ fn @ '' in region '' @ region)
         | Inl e \<Rightarrow> print (''Error checking function status: '' @ fault_text e)
         | Inr u \<Rightarrow> seq (sleep 5) (poll_function n client region fn))" for r :: "unit result"
    by (auto split: sum.split fault.split intro!: emits_print emits_seq emits_sleep assms Suc.IH)
  show ?case
    by (subst poll_function.simps(2)) (intro emits_bind emits_attempt emits_call assms k)
qed

lemmas emits_intros = emits_ret emits_raise emits_cut emits_print emits_sleep emits_call emits_bind
  emits_seq emits_attempt emits_if emits_case_prod emits_case_list emits_case_option
  emits_for_each emits_for_pages emits_poll_function

lemma emits_trace: "emits A m \<Longrightarrow> e \<in> set (trace_of m w) \<Longrightarrow> A e"
  unfolding emits_def trace_of_def run_def
proof -
  assume a: "\<forall>w t. \<exists>es. snd (snd (m (w, t))) = t @ es \<and> (\<forall>e \<in> set es. A e)"
    and e: "e \<in> set (snd (snd (m (w, []))))"
  from a[rule_format, of w "[]"] obtain es where "snd (snd (m (w, []))) = es" "\<forall>e \<in> set es. A e"
    by auto
  with e show "A e" by simp
qed

section \<open>Termination protection\<close>

lemma each_prefixed_Nil [simp]: "each_prefixed Q []"
  by (simp add: each_prefixed_def)

lemma each_prefixed_snoc: "each_prefixed Q (t @ [e]) \<longleftrightarrow> each_prefixed Q t \<and> Q t e"
  by (auto simp: each_prefixed_def nth_append less_Suc_eq)

lemma each_prefixed_Cons [simp]:
  "each_prefixed Q (e # es) \<longleftrightarrow> Q [] e \<and> each_prefixed (\<lambda>p. Q (e # p)) es"
  by (auto simp: each_prefixed_def less_Suc_eq_0_disj)

lemma each_prefixed_append [simp]:
  "each_prefixed Q (t @ es) \<longleftrightarrow> each_prefixed Q t \<and> each_prefixed (\<lambda>p. Q (t @ p)) es"
  by (induction t arbitrary: Q) auto

lemmas prog_defs = bind_def seq_def call_def print_def sleep_def ret_def raise_def cut_def attempt_def

lemma delete_one_stack_inv:
  "hoare (stack_inv region) (delete_one_stack client region wait n) (\<lambda>_. stack_inv region) (stack_inv region)"
  unfolding hoare_def delete_one_stack_def prog_defs stack_inv_def
  by (auto split: prod.splits sum.splits list.splits
      simp: successively_append_iff deletion_guarded_def protected_answer_def skip_follows_def)

lemma stack_pass_inv:
  "hoare (stack_inv region) (stack_pass client fuel region wait statuses selected) (\<lambda>_. stack_inv region) (stack_inv region)"
  unfolding stack_pass_def
proof (rule hoare_for_pages[where J = "\<lambda>_. stack_inv region"])
  fix tok
  show "hoare (stack_inv region) (call (\<lambda>r. Cfn (ListStacks statuses tok r)) (list_stacks client statuses tok))
          (\<lambda>_. stack_inv region) (stack_inv region)"
    by (rule hoare_call)
      (auto simp: stack_inv_def successively_append_iff deletion_guarded_def protected_answer_def skip_follows_def)
next
  fix items :: "stack_summary list" and "next" :: "token option"
  show "hoare (stack_inv region)
          (for_each items (\<lambda>stack. if selected (StackName stack)
             then delete_one_stack client region wait (StackName stack) else ret ()))
          (\<lambda>_. stack_inv region) (stack_inv region)"
    by (rule hoare_for_each) (simp add: delete_one_stack_inv hoare_ret)
qed simp

lemma delete_all_stacks_inv:
  "stack_inv region (trace_of (delete_all_stacks client fuel region wait) w)"
proof -
  have "hoare (stack_inv region) (delete_all_stacks client fuel region wait) (\<lambda>_. stack_inv region) (stack_inv region)"
    unfolding delete_all_stacks_def by (rule hoare_seq[OF stack_pass_inv stack_pass_inv])
  moreover have "stack_inv region []" by (simp add: stack_inv_def)
  ultimately show ?thesis by (rule hoare_run)
qed

lemma each_prefixedD: "each_prefixed Q t \<Longrightarrow> i < length t \<Longrightarrow> Q (take i t) (t ! i)"
  by (simp add: each_prefixed_def)

lemma last_two_of_take:
  assumes "take i t = pre @ [a, b]" and "i < length t"
  shows "2 \<le> i \<and> t ! (i - 2) = a \<and> t ! (i - 1) = b"
proof -
  from assms(1) have "length (take i t) = length (pre @ [a, b])" by simp
  with assms(2) have len: "i = length pre + 2" by simp
  have "t ! (i - 2) = take i t ! (i - 2)" "t ! (i - 1) = take i t ! (i - 1)"
    using len by simp_all
  with assms(1) len show ?thesis by (simp add: nth_append)
qed

text \<open>
  C1.  In any run of the stack teardown, over any provider and for either value of
  \<open>wait\<close>: a \<^verbatim>\<open>delete_stack\<close> call for a stack is issued only two steps after a
  \<^verbatim>\<open>describe_stacks\<close> answer for that stack whose first entry has termination
  protection off; and an answer whose first entry has termination protection on is
  followed at once by the line that logs the stack as skipped (and so, by the first part,
  not by a delete call).  The theorem is about the whole run, so it covers the
  name-filtered pass and the general pass.
\<close>

theorem protected_stacks_never_deleted:
  "(let t = trace_of (delete_all_stacks client fuel region wait) w in
    (\<forall>i<length t. \<forall>n.
       ((\<exists>r. t ! i = Cfn (DeleteStack n r)) \<longrightarrow>
          2 \<le> i \<and> (\<exists>d ds. t ! (i - 2) = Cfn (DescribeStacks n (Inr (d # ds)))
                      \<and> \<not> EnableTerminationProtection d))
     \<and> ((\<exists>d ds. t ! i = Cfn (DescribeStacks n (Inr (d # ds))) \<and> EnableTerminationProtection d) \<longrightarrow>
          Suc i < length t
          \<and> t ! Suc i = Print (''Skipping stack: '' @ n @ '' in region '' @ region
                                 @ '' due to termination protection''))))"
proof -
  define t where "t = trace_of (delete_all_stacks client fuel region wait) w"
  have inv: "stack_inv region t"
    unfolding t_def by (rule delete_all_stacks_inv)
  have "\<forall>i<length t. \<forall>n.
       ((\<exists>r. t ! i = Cfn (DeleteStack n r)) \<longrightarrow>
          2 \<le> i \<and> (\<exists>d ds. t ! (i - 2) = Cfn (DescribeStacks n (Inr (d # ds)))
                      \<and> \<not> EnableTerminationProtection d))
     \<and> ((\<exists>d ds. t ! i = Cfn (DescribeStacks n (Inr (d # ds))) \<and> EnableTerminationProtection d) \<longrightarrow>
          Suc i < length t
          \<and> t ! Suc i = Print (''Skipping stack: '' @ n @ '' in region '' @ region
                                 @ '' due to termination protection''))"
  proof (intro allI impI conjI)
    fix i n assume i: "i < length t" and "\<exists>r. t ! i = Cfn (DeleteStack n r)"
    then obtain r where "t ! i = Cfn (DeleteStack n r)" by blast
    from inv have "each_prefixed (deletion_guarded region) t" by (simp add: stack_inv_def)
    from each_prefixedD[OF this i] have "deletion_guarded region (take i t) (t ! i)" .
    with \<open>t ! i = Cfn (DeleteStack n r)\<close> obtain pre' d ds where
      tk: "take i t = pre' @ [Cfn (DescribeStacks n (Inr (d # ds))),
                               Print (''Deleting stack: '' @ n @ '' in region '' @ region)]"
      and np: "\<not> EnableTerminationProtection d"
      unfolding deletion_guarded_def by blast
    from last_two_of_take[OF tk i] np
    show "2 \<le> i" and "\<exists>d ds. t ! (i - 2) = Cfn (DescribeStacks n (Inr (d # ds))) \<and> \<not> EnableTerminationProtection d"
      by auto
  next
    fix i n assume i: "i < length t"
      and pd: "\<exists>d ds. t ! i = Cfn (DescribeStacks n (Inr (d # ds))) \<and> EnableTerminationProtection d"
    then have pa: "protected_answer (t ! i)" by (auto simp: protected_answer_def)
    show nl: "Suc i < length t"
    proof (rule ccontr)
      assume "\<not> Suc i < length t"
      with i have il: "i = length t - 1" by arith
      from i have ne: "t \<noteq> []" by auto
      from ne il have "last t = t ! i" by (simp add: last_conv_nth)
      with ne inv pa show False by (simp add: stack_inv_def)
    qed
    from inv have "successively (skip_follows region) t" by (simp add: stack_inv_def)
    from successively_nth[OF this nl] pd
    show "t ! Suc i = Print (''Skipping stack: '' @ n @ '' in region '' @ region
                                 @ '' due to termination protection'')"
      by (auto simp: skip_follows_def)
  qed
  then show ?thesis by (simp add: t_def Let_def)
qed

lemmas test_defs = test_cloudformation_def test_list_stacks_def test_describe_stacks_def
  test_delete_stack_def test_wait_stack_delete_complete_def set_stack_status_def page_from_def token_of_def
  empty_region_def

lemmas stack_defs = delete_all_stacks_def stack_pass_def delete_one_stack_def first_pass_statuses_def
  second_pass_statuses_def in_first_pass_def in_second_pass_def contains_def

lemma three_stacks_trace:
  "trace_of (delete_all_stacks test_cloudformation 2 ''r'' False) three_stacks =
    [Cfn (ListStacks first_pass_statuses None
       (Inr ([\<lparr>StackName = ''AppPipe-prod'', StackStatus = ''CREATE_COMPLETE''\<rparr>,
              \<lparr>StackName = ''other-infra'', StackStatus = ''UPDATE_COMPLETE''\<rparr>,
              \<lparr>StackName = ''other-app'', StackStatus = ''CREATE_COMPLETE''\<rparr>], None))),
     Cfn (DescribeStacks ''AppPipe-prod'' (Inr [\<lparr>EnableTerminationProtection = False\<rparr>])),
     Print ''Deleting stack: AppPipe-prod in region r'',
     Cfn (DeleteStack ''AppPipe-prod'' (Inr ())),
     Cfn (ListStacks second_pass_statuses None
       (Inr ([\<lparr>StackName = ''other-infra'', StackStatus = ''UPDATE_COMPLETE''\<rparr>,
              \<lparr>StackName = ''other-app'', StackStatus = ''CREATE_COMPLETE''\<rparr>], None))),
     Cfn (DescribeStacks ''other-infra'' (Inr [\<lparr>EnableTerminationProtection = True\<rparr>])),
     Print ''Skipping stack: other-infra in region r due to termination protection'',
     Cfn (DescribeStacks ''other-app'' (Inr [\<lparr>EnableTerminationProtection = False\<rparr>])),
     Print ''Deleting stack: other-app in region r'',
     Cfn (DeleteStack ''other-app'' (Inr ()))]"
  by (simp add: trace_of_def run_def stack_defs prog_defs test_defs three_stacks_def numeral_2_eq_2 sublist_code)

text \<open>
  The scenario of the specification: \<^verbatim>\<open>AppPipe-prod\<close> and \<^verbatim>\<open>other-app\<close> without
  protection, \<^verbatim>\<open>other-infra\<close> with it.
\<close>

theorem protected_stacks_never_deleted_witness:
  "(let t = trace_of (delete_all_stacks test_cloudformation 2 ''r'' False) three_stacks in
     t ! 3 = Cfn (DeleteStack ''AppPipe-prod'' (Inr ()))
     \<and> (\<exists>d ds. t ! 1 = Cfn (DescribeStacks ''AppPipe-prod'' (Inr (d # ds))) \<and> \<not> EnableTerminationProtection d)
     \<and> t ! 5 = Cfn (DescribeStacks ''other-infra'' (Inr [\<lparr>EnableTerminationProtection = True\<rparr>]))
     \<and> t ! 6 = Print ''Skipping stack: other-infra in region r due to termination protection'')"
proof -
  let ?t = "trace_of (delete_all_stacks test_cloudformation 2 ''r'' False) three_stacks"
  note c = protected_stacks_never_deleted[of test_cloudformation 2 "''r''" False three_stacks, unfolded Let_def, rule_format]
  have len: "length ?t = 10" and d: "?t ! 3 = Cfn (DeleteStack ''AppPipe-prod'' (Inr ()))"
    and p: "?t ! 5 = Cfn (DescribeStacks ''other-infra'' (Inr [\<lparr>EnableTerminationProtection = True\<rparr>]))"
    by (simp_all add: three_stacks_trace)
  have "\<exists>d ds. ?t ! (3 - 2) = Cfn (DescribeStacks ''AppPipe-prod'' (Inr (d # ds))) \<and> \<not> EnableTerminationProtection d"
    using c[of 3 "''AppPipe-prod''", THEN conjunct1] len d by auto
  moreover have "?t ! Suc 5 = Print (''Skipping stack: '' @ ''other-infra'' @ '' in region '' @ ''r''
                                 @ '' due to termination protection'')"
    using c[of 5 "''other-infra''", THEN conjunct2] len p by auto
  ultimately show ?thesis using d p by (simp add: Let_def)
qed

section \<open>Node groups before their cluster\<close>

lemmas eks_preds = eks_inv_def cluster_delete_prepared_def wait_follows_def nodegroup_deleted_def
  successively_append_iff

lemma eks_nodegroup_step:
  "hoare (nodegroups_done region c gs ys) (delete_eks_nodegroup client c g)
     (\<lambda>_. nodegroups_done region c gs (ys @ [g])) (eks_inv region)"
  unfolding hoare_def prog_defs nodegroups_done_def delete_eks_nodegroup_def
  by (auto split: prod.splits sum.splits simp: eks_preds nodegroup_steps_def)

lemma eks_cluster_rest:
  "hoare (nodegroups_done region c gs gs)
      (seq (print (''Deleting EKS cluster: '' @ c @ '' in region '' @ region))
              (seq (call (\<lambda>r. Eks (EksDeleteCluster c r)) (eks_delete_cluster client c))
                   (if wait
                    then call (\<lambda>r. Eks (WaitEksClusterDeleted c r))
                           (wait_eks_cluster_deleted client c)
                    else ret ())))
      (\<lambda>_. eks_inv region) (eks_inv region)"
  unfolding hoare_def prog_defs nodegroups_done_def
  by (auto split: prod.splits sum.splits simp: eks_preds)

lemma eks_cluster_step:
  "hoare (eks_inv region) (delete_eks_cluster client region wait c) (\<lambda>_. eks_inv region) (eks_inv region)"
  unfolding delete_eks_cluster_def
proof (rule hoare_bind[where R = "\<lambda>p t. nodegroups_done region c (fst p) [] t"])
  show "hoare (eks_inv region) (call (\<lambda>r. Eks (ListNodegroups c r)) (list_nodegroups client c))
         (\<lambda>p. nodegroups_done region c (fst p) []) (eks_inv region)"
    by (rule hoare_call) (auto simp: nodegroups_done_def eks_preds)
next
  fix p :: "string page"
  obtain gs nx where p: "p = (gs, nx)" by (cases p)
  have loop: "hoare (nodegroups_done region c gs [])
      (for_each gs (delete_eks_nodegroup client c))
      (\<lambda>_. nodegroups_done region c gs gs) (eks_inv region)"
    by (rule hoare_for_each_prefix) (rule eks_nodegroup_step)
  show "hoare (nodegroups_done region c (fst p) [])
          (case p of (node_groups, _) \<Rightarrow>
               seq (for_each node_groups (delete_eks_nodegroup client c))
              (seq (print (''Deleting EKS cluster: '' @ c @ '' in region '' @ region))
              (seq (call (\<lambda>r. Eks (EksDeleteCluster c r)) (eks_delete_cluster client c))
                   (if wait
                    then call (\<lambda>r. Eks (WaitEksClusterDeleted c r))
                           (wait_eks_cluster_deleted client c)
                    else ret ()))))
          (\<lambda>_. eks_inv region) (eks_inv region)"
    unfolding p prod.case fst_conv by (rule hoare_seq[OF loop eks_cluster_rest])
qed

lemma delete_all_eks_clusters_inv:
  "eks_inv region (trace_of (delete_all_eks_clusters client region wait) w)"
proof -
  have "hoare (eks_inv region) (delete_all_eks_clusters client region wait) (\<lambda>_. eks_inv region) (eks_inv region)"
    unfolding delete_all_eks_clusters_def
  proof (rule hoare_bind[where R = "\<lambda>_. eks_inv region"])
    show "hoare (eks_inv region) (call (\<lambda>r. Eks (EksListClusters r)) (eks_list_clusters client))
           (\<lambda>_. eks_inv region) (eks_inv region)"
      by (rule hoare_call) (auto simp: eks_preds)
  next
    fix p :: "string page"
    obtain cs nx where p: "p = (cs, nx)" by (cases p)
    show "hoare (eks_inv region)
          (case p of (clusters, _) \<Rightarrow> for_each clusters (delete_eks_cluster client region wait))
          (\<lambda>_. eks_inv region) (eks_inv region)"
      unfolding p prod.case by (rule hoare_for_each) (rule eks_cluster_step)
  qed
  moreover have "eks_inv region []" by (simp add: eks_inv_def)
  ultimately show ?thesis by (rule hoare_run)
qed

text \<open>
  C2.  In any run of the managed Kubernetes teardown, over any provider and for either
  value of \<open>wait\<close>: a \<^verbatim>\<open>delete_nodegroup\<close> call that returns is followed at once by the
  \<^verbatim>\<open>nodegroup_deleted\<close> wait for the same node group; and when \<^verbatim>\<open>delete_cluster\<close> is
  called for a cluster, the trace up to there ends with the node-group listing of that
  cluster, then for each listed node group, in order, its delete call and its wait, both
  returned, then the line that announces the cluster's deletion.
\<close>

theorem nodegroups_awaited_before_cluster_delete:
  "(let t = trace_of (delete_all_eks_clusters client region wait) w in
     (\<forall>i<length t. \<forall>c g. t ! i = Eks (DeleteNodegroup c g (Inr ())) \<longrightarrow>
        Suc i < length t \<and> (\<exists>r. t ! Suc i = Eks (WaitNodegroupDeleted c g r)))
   \<and> (\<forall>i<length t. \<forall>c r. t ! i = Eks (EksDeleteCluster c r) \<longrightarrow>
        (\<exists>pre gs nx. take i t = pre @ Eks (ListNodegroups c (Inr (gs, nx)))
           # concat (map (nodegroup_steps c) gs)
           @ [Print (''Deleting EKS cluster: '' @ c @ '' in region '' @ region)])))"
proof -
  define t where "t = trace_of (delete_all_eks_clusters client region wait) w"
  have inv: "eks_inv region t"
    unfolding t_def by (rule delete_all_eks_clusters_inv)
  have a: "\<forall>i<length t. \<forall>c g. t ! i = Eks (DeleteNodegroup c g (Inr ())) \<longrightarrow>
        Suc i < length t \<and> (\<exists>r. t ! Suc i = Eks (WaitNodegroupDeleted c g r))"
  proof (intro allI impI)
    fix i c g assume i: "i < length t" and d: "t ! i = Eks (DeleteNodegroup c g (Inr ()))"
    from d have nd: "nodegroup_deleted (t ! i)" by (auto simp: nodegroup_deleted_def)
    have nl: "Suc i < length t"
    proof (rule ccontr)
      assume "\<not> Suc i < length t"
      with i have il: "i = length t - 1" by arith
      from i have ne: "t \<noteq> []" by auto
      from ne il have "last t = t ! i" by (simp add: last_conv_nth)
      with ne inv nd show False by (simp add: eks_inv_def)
    qed
    from inv have "successively wait_follows t" by (simp add: eks_inv_def)
    from successively_nth[OF this nl] d
    have "\<exists>r. t ! Suc i = Eks (WaitNodegroupDeleted c g r)"
      by (simp add: wait_follows_def)
    with nl show "Suc i < length t \<and> (\<exists>r. t ! Suc i = Eks (WaitNodegroupDeleted c g r))" by simp
  qed
  have b: "\<forall>i<length t. \<forall>c r. t ! i = Eks (EksDeleteCluster c r) \<longrightarrow>
        (\<exists>pre gs nx. take i t = pre @ Eks (ListNodegroups c (Inr (gs, nx)))
           # concat (map (nodegroup_steps c) gs)
           @ [Print (''Deleting EKS cluster: '' @ c @ '' in region '' @ region)])"
  proof (intro allI impI)
    fix i c r assume i: "i < length t" and d: "t ! i = Eks (EksDeleteCluster c r)"
    from inv have "each_prefixed (cluster_delete_prepared region) t" by (simp add: eks_inv_def)
    from each_prefixedD[OF this i] have "cluster_delete_prepared region (take i t) (t ! i)" .
    with d show "\<exists>pre gs nx. take i t = pre @ Eks (ListNodegroups c (Inr (gs, nx)))
           # concat (map (nodegroup_steps c) gs)
           @ [Print (''Deleting EKS cluster: '' @ c @ '' in region '' @ region)]"
      unfolding cluster_delete_prepared_def by blast
  qed
  from a b show ?thesis by (simp add: t_def Let_def)
qed

lemmas eks_defs = delete_all_eks_clusters_def delete_eks_cluster_def delete_eks_nodegroup_def

lemmas test_eks_defs = test_eks_def test_list_nodegroups_def test_delete_nodegroup_def
  test_eks_delete_cluster_def page_from_def token_of_def empty_region_def

lemma one_eks_cluster_trace:
  "trace_of (delete_all_eks_clusters test_eks ''r'' False) one_eks_cluster =
    [Eks (EksListClusters (Inr ([''k1''], None))),
     Eks (ListNodegroups ''k1'' (Inr ([''ng-a'', ''ng-b''], None))),
     Print ''Deleting node group: ng-a in cluster: k1'',
     Eks (DeleteNodegroup ''k1'' ''ng-a'' (Inr ())),
     Eks (WaitNodegroupDeleted ''k1'' ''ng-a'' (Inr ())),
     Print ''Deleting node group: ng-b in cluster: k1'',
     Eks (DeleteNodegroup ''k1'' ''ng-b'' (Inr ())),
     Eks (WaitNodegroupDeleted ''k1'' ''ng-b'' (Inr ())),
     Print ''Deleting EKS cluster: k1 in region r'',
     Eks (EksDeleteCluster ''k1'' (Inr ()))]"
  by (simp add: trace_of_def run_def eks_defs prog_defs test_eks_defs one_eks_cluster_def)

text \<open>The scenario of the specification: one cluster with two node groups, wait flag off.\<close>

theorem nodegroups_awaited_before_cluster_delete_witness:
  "(let t = trace_of (delete_all_eks_clusters test_eks ''r'' False) one_eks_cluster in
     t ! 6 = Eks (DeleteNodegroup ''k1'' ''ng-b'' (Inr ()))
     \<and> (\<exists>r. t ! 7 = Eks (WaitNodegroupDeleted ''k1'' ''ng-b'' r))
     \<and> t ! 9 = Eks (EksDeleteCluster ''k1'' (Inr ()))
     \<and> (\<exists>pre gs nx. take 9 t = pre @ Eks (ListNodegroups ''k1'' (Inr (gs, nx)))
           # concat (map (nodegroup_steps ''k1'') gs)
           @ [Print (''Deleting EKS cluster: '' @ ''k1'' @ '' in region '' @ ''r'')]))"
proof -
  let ?t = "trace_of (delete_all_eks_clusters test_eks ''r'' False) one_eks_cluster"
  note c = nodegroups_awaited_before_cluster_delete[of test_eks "''r''" False one_eks_cluster,
      unfolded Let_def]
  have len: "length ?t = 10" and d: "?t ! 6 = Eks (DeleteNodegroup ''k1'' ''ng-b'' (Inr ()))"
    and k: "?t ! 9 = Eks (EksDeleteCluster ''k1'' (Inr ()))"
    by (simp_all add: one_eks_cluster_trace)
  from c[THEN conjunct1, rule_format, of 6 "''k1''" "''ng-b''"] len d
  have "\<exists>r. ?t ! Suc 6 = Eks (WaitNodegroupDeleted ''k1'' ''ng-b'' r)" by simp
  then have w: "\<exists>r. ?t ! 7 = Eks (WaitNodegroupDeleted ''k1'' ''ng-b'' r)" by simp
  from c[THEN conjunct2, rule_format, of 9 "''k1''" "Inr ()"] len k
  have "\<exists>pre gs nx. take 9 ?t = pre @ Eks (ListNodegroups ''k1'' (Inr (gs, nx)))
           # concat (map (nodegroup_steps ''k1'') gs)
           @ [Print (''Deleting EKS cluster: '' @ ''k1'' @ '' in region '' @ ''r'')]" by simp
  with d w k show ?thesis unfolding Let_def by blast
qed

section \<open>Polling for a deleted function\<close>

lemma polls_Suc: "polls fn (Suc k) = Lam (GetFunction fn (Inr ())) # Sleep 5 # polls fn k"
  by (simp add: polls_def)

lemma polls_0 [simp]: "polls fn 0 = []"
  by (simp add: polls_def)

lemma poll_function_shape:
  "\<exists>k w'. k \<le> n \<and>
     (poll_function n client region fn (w, t) = (Cut, w', t @ polls fn k) \<and> k = n
      \<or> (\<exists>e. poll_function n client region fn (w, t) =
            (Done (), w', t @ polls fn k @ [Lam (GetFunction fn (Inl e)), Print (poll_log region fn e)])))"
proof (induction n arbitrary: w t)
  case 0
  then show ?case by (simp add: cut_def)
next
  case (Suc n)
  obtain r w1 where g: "get_function client fn w = (r, w1)" by (cases "get_function client fn w")
  show ?case
  proof (cases r)
    case (Inl e)
    have "poll_function (Suc n) client region fn (w, t) =
            (Done (), w1, t @ polls fn 0 @ [Lam (GetFunction fn (Inl e)), Print (poll_log region fn e)])"
      using g Inl by (cases e) (simp_all add: prog_defs)
    then show ?thesis by (metis le0)
  next
    case (Inr u)
    have step: "poll_function (Suc n) client region fn (w, t) =
       poll_function n client region fn (w1, t @ [Lam (GetFunction fn (Inr ())), Sleep 5])"
      using g Inr by (simp add: prog_defs)
    from Suc.IH[of w1 "t @ [Lam (GetFunction fn (Inr ())), Sleep 5]"]
    obtain k w' where k: "k \<le> n" and
      d: "poll_function n client region fn (w1, t @ [Lam (GetFunction fn (Inr ())), Sleep 5]) =
             (Cut, w', (t @ [Lam (GetFunction fn (Inr ())), Sleep 5]) @ polls fn k) \<and> k = n
          \<or> (\<exists>e. poll_function n client region fn (w1, t @ [Lam (GetFunction fn (Inr ())), Sleep 5]) =
            (Done (), w', (t @ [Lam (GetFunction fn (Inr ())), Sleep 5]) @ polls fn k
               @ [Lam (GetFunction fn (Inl e)), Print (poll_log region fn e)]))"
      by blast
    have "Suc k \<le> Suc n \<and>
     (poll_function (Suc n) client region fn (w, t) = (Cut, w', t @ polls fn (Suc k)) \<and> Suc k = Suc n
      \<or> (\<exists>e. poll_function (Suc n) client region fn (w, t) =
            (Done (), w', t @ polls fn (Suc k) @ [Lam (GetFunction fn (Inl e)), Print (poll_log region fn e)])))"
      using k d unfolding step by (simp add: polls_Suc)
    then show ?thesis by blast
  qed
qed

lemmas lambda_preds = lambda_inv_def lambda_polling_def lambda_next_def lambda_pending_def
  successively_append_iff

lemma poll_function_inv:
  "hoare (lambda_polling region fn k) (poll_function k client region fn)
     (\<lambda>_. lambda_inv region) (lambda_inv region)"
proof (induction k)
  case 0
  then show ?case by (auto simp: hoare_def cut_def lambda_preds)
next
  case (Suc k)
  have rest: "hoare (\<lambda>t. lambda_polling region fn k t) (poll_function k client region fn)
     (\<lambda>_. lambda_inv region) (lambda_inv region)" by (rule Suc.IH)
  show ?case
    unfolding poll_function.simps
  proof (rule hoare_bind[where R = "\<lambda>r t. successively (lambda_next region) t \<and> t \<noteq> []
        \<and> last t = Lam (GetFunction fn (case r of Inl e \<Rightarrow> Inl e | Inr u \<Rightarrow> Inr ()))"])
    show "hoare (lambda_polling region fn (Suc k))
       (attempt (call (\<lambda>r. Lam (GetFunction fn r)) (get_function client fn)))
       (\<lambda>r t. successively (lambda_next region) t \<and> t \<noteq> []
        \<and> last t = Lam (GetFunction fn (case r of Inl e \<Rightarrow> Inl e | Inr u \<Rightarrow> Inr ())))
       (lambda_inv region)"
      unfolding hoare_def prog_defs
      by (auto split: prod.splits sum.splits simp: lambda_preds)
  next
    fix r :: "unit result"
    show "hoare (\<lambda>t. successively (lambda_next region) t \<and> t \<noteq> []
        \<and> last t = Lam (GetFunction fn (case r of Inl e \<Rightarrow> Inl e | Inr u \<Rightarrow> Inr ())))
        (case r of
           Inl (ResourceNotFoundException m) \<Rightarrow>
             print (''Deleted Lambda function: '' @ fn @ '' in region '' @ region)
         | Inl e \<Rightarrow> print (''Error checking function status: '' @ fault_text e)
         | Inr u \<Rightarrow> seq (sleep 5) (poll_function k client region fn))
        (\<lambda>_. lambda_inv region) (lambda_inv region)"
    proof (cases r)
      case (Inl e)
      then show ?thesis
        by (cases e) (auto intro!: hoare_print simp: lambda_preds)
    next
      case (Inr u)
      have "hoare (\<lambda>t. successively (lambda_next region) t \<and> t \<noteq> []
              \<and> last t = Lam (GetFunction fn (Inr ())))
            (sleep 5) (\<lambda>_. lambda_polling region fn k) (lambda_inv region)"
        by (rule hoare_sleep) (auto simp: lambda_preds)
      from hoare_seq[OF this rest] Inr show ?thesis by simp
    qed
  qed
qed

lemma delete_lambda_function_inv:
  assumes "0 < fuel"
  shows "hoare (lambda_inv region) (delete_lambda_function client fuel region fn)
     (\<lambda>_. lambda_inv region) (lambda_inv region)"
  unfolding delete_lambda_function_def
proof (rule hoare_seq[where R = "lambda_inv region"])
  show "hoare (lambda_inv region) (print (''Deleting Lambda function: '' @ fn @ '' in region '' @ region))
          (\<lambda>_. lambda_inv region) (lambda_inv region)"
    by (rule hoare_print) (auto simp: lambda_preds)
next
  have "hoare (lambda_inv region) (call (\<lambda>r. Lam (DeleteFunction fn r)) (delete_function client fn))
          (\<lambda>_. lambda_polling region fn fuel) (lambda_inv region)"
    using assms by (intro hoare_call) (auto simp: lambda_preds)
  then show "hoare (lambda_inv region)
     (seq (call (\<lambda>r. Lam (DeleteFunction fn r)) (delete_function client fn))
          (poll_function fuel client region fn))
     (\<lambda>_. lambda_inv region) (lambda_inv region)"
    by (rule hoare_seq) (rule poll_function_inv)
qed

lemma delete_all_lambda_functions_inv:
  "lambda_inv region (trace_of (delete_all_lambda_functions client fuel region) w)"
proof (cases fuel)
  case 0
  then show ?thesis
    by (simp add: delete_all_lambda_functions_def trace_of_def run_def cut_def lambda_inv_def)
next
  case (Suc n)
  then have pos: "0 < fuel" by simp
  have "hoare (lambda_inv region) (delete_all_lambda_functions client fuel region)
          (\<lambda>_. lambda_inv region) (lambda_inv region)"
    unfolding delete_all_lambda_functions_def
  proof (rule hoare_for_pages[where J = "\<lambda>_. lambda_inv region"])
    fix tok
    show "hoare (lambda_inv region) (call (\<lambda>r. Lam (ListFunctions tok r)) (list_functions client tok))
            (\<lambda>_. lambda_inv region) (lambda_inv region)"
      by (rule hoare_call) (auto simp: lambda_preds)
  next
    fix items :: "string list" and nx :: "token option"
    show "hoare (lambda_inv region) (for_each items (delete_lambda_function client fuel region))
            (\<lambda>_. lambda_inv region) (lambda_inv region)"
      by (rule hoare_for_each) (rule delete_lambda_function_inv[OF pos])
  qed simp
  moreover have "lambda_inv region []" by (simp add: lambda_inv_def)
  ultimately show ?thesis by (rule hoare_run)
qed

text \<open>
  C6.  The polling loop, started in any state of any provider and observed for \<open>n\<close> rounds:
  it makes \<open>k\<close> polls that find the function, each followed by a sleep of 5 seconds, and
  then either is still polling when the observation ends (only when \<open>k = n\<close>: the loop has
  no bound of its own), or receives a fault, logs it and ends normally.  The logged line is
  the line for a deleted function when the fault is \<^verbatim>\<open>ResourceNotFoundException\<close>, and the
  error line otherwise (\<open>poll_log\<close>).  The loop never raises, so the procedure goes on to
  the next function.  In a run of the whole procedure, a delete call that returns is
  followed by a poll of the same function, a poll that finds the function by the sleep,
  and a poll that faults by its log line.
\<close>

theorem lambda_polling_until_gone:
  "(\<exists>k w'. k \<le> n \<and>
     (poll_function n client region fn (w, t) = (Cut, w', t @ polls fn k) \<and> k = n
      \<or> (\<exists>e. poll_function n client region fn (w, t) =
            (Done (), w', t @ polls fn k @ [Lam (GetFunction fn (Inl e)), Print (poll_log region fn e)]))))
   \<and> (let tr = trace_of (delete_all_lambda_functions client fuel region) w0 in
       \<forall>i<length tr. \<forall>f.
         (tr ! i = Lam (DeleteFunction f (Inr ())) \<longrightarrow>
            Suc i < length tr \<and> (\<exists>r. tr ! Suc i = Lam (GetFunction f r)))
       \<and> (tr ! i = Lam (GetFunction f (Inr ())) \<longrightarrow> Suc i < length tr \<and> tr ! Suc i = Sleep 5)
       \<and> (\<forall>e. tr ! i = Lam (GetFunction f (Inl e)) \<longrightarrow>
            Suc i < length tr \<and> tr ! Suc i = Print (poll_log region f e)))"
proof -
  define tr where "tr = trace_of (delete_all_lambda_functions client fuel region) w0"
  have inv: "lambda_inv region tr"
    unfolding tr_def by (rule delete_all_lambda_functions_inv)
  then have s: "successively (lambda_next region) tr" and l: "tr = [] \<or> \<not> lambda_pending (last tr)"
    by (simp_all add: lambda_inv_def)
  have "\<forall>i<length tr. \<forall>f.
         (tr ! i = Lam (DeleteFunction f (Inr ())) \<longrightarrow>
            Suc i < length tr \<and> (\<exists>r. tr ! Suc i = Lam (GetFunction f r)))
       \<and> (tr ! i = Lam (GetFunction f (Inr ())) \<longrightarrow> Suc i < length tr \<and> tr ! Suc i = Sleep 5)
       \<and> (\<forall>e. tr ! i = Lam (GetFunction f (Inl e)) \<longrightarrow>
            Suc i < length tr \<and> tr ! Suc i = Print (poll_log region f e))"
  proof (intro allI impI conjI)
    fix i f assume i: "i < length tr" and d: "tr ! i = Lam (DeleteFunction f (Inr ()))"
    then have "lambda_pending (tr ! i)" by (simp add: lambda_pending_def)
    from followed_at[OF s l i this] d
    show "Suc i < length tr" and "\<exists>r. tr ! Suc i = Lam (GetFunction f r)"
      by (simp_all add: lambda_next_def)
  next
    fix i f assume i: "i < length tr" and d: "tr ! i = Lam (GetFunction f (Inr ()))"
    then have "lambda_pending (tr ! i)" by (simp add: lambda_pending_def)
    from followed_at[OF s l i this] d
    show "Suc i < length tr" and "tr ! Suc i = Sleep 5"
      by (simp_all add: lambda_next_def)
  next
    fix i f e assume i: "i < length tr" and d: "tr ! i = Lam (GetFunction f (Inl e))"
    then have "lambda_pending (tr ! i)" by (simp add: lambda_pending_def)
    from followed_at[OF s l i this] d
    show "Suc i < length tr" and "tr ! Suc i = Print (poll_log region f e)"
      by (simp_all add: lambda_next_def)
  qed
  with poll_function_shape[of n client region fn w t] show ?thesis
    by (simp add: tr_def Let_def)
qed

lemmas lambda_defs = delete_all_lambda_functions_def delete_lambda_function_def

lemma scripted_lambda_run:
  "run (delete_all_lambda_functions scripted_lambda 3 ''r'') [Inr (), Inr (), Inl (ClientError ''Rate exceeded'')] =
    (Done (), [],
    [Lam (ListFunctions None (Inr ([''f1'', ''f2''], None))),
     Print ''Deleting Lambda function: f1 in region r'',
     Lam (DeleteFunction ''f1'' (Inr ())),
     Lam (GetFunction ''f1'' (Inr ())),
     Sleep 5,
     Lam (GetFunction ''f1'' (Inr ())),
     Sleep 5,
     Lam (GetFunction ''f1'' (Inl (ClientError ''Rate exceeded''))),
     Print ''Error checking function status: Rate exceeded'',
     Print ''Deleting Lambda function: f2 in region r'',
     Lam (DeleteFunction ''f2'' (Inr ())),
     Lam (GetFunction ''f2'' (Inl (ResourceNotFoundException ''Function not found: f2''))),
     Print ''Deleted Lambda function: f2 in region r''])"
  by (simp add: run_def lambda_defs prog_defs scripted_lambda_def numeral_3_eq_3)

text \<open>
  Two functions; the first is still there for two polls and the third poll is refused
  with another fault, the second is gone at its first poll.
\<close>

theorem lambda_polling_until_gone_witness:
  "(let tr = trace_of (delete_all_lambda_functions scripted_lambda 3 ''r'')
               [Inr (), Inr (), Inl (ClientError ''Rate exceeded'')] in
     tr ! 2 = Lam (DeleteFunction ''f1'' (Inr ())) \<and> (\<exists>r. tr ! 3 = Lam (GetFunction ''f1'' r))
   \<and> tr ! 5 = Lam (GetFunction ''f1'' (Inr ())) \<and> tr ! 6 = Sleep 5
   \<and> tr ! 7 = Lam (GetFunction ''f1'' (Inl (ClientError ''Rate exceeded'')))
   \<and> tr ! 8 = Print ''Error checking function status: Rate exceeded''
   \<and> tr ! 11 = Lam (GetFunction ''f2'' (Inl (ResourceNotFoundException ''Function not found: f2'')))
   \<and> tr ! 12 = Print ''Deleted Lambda function: f2 in region r'')"
proof -
  let ?w = "[Inr (), Inr (), Inl (ClientError ''Rate exceeded'')] :: unit result list"
  let ?tr = "trace_of (delete_all_lambda_functions scripted_lambda 3 ''r'') ?w"
  note c = lambda_polling_until_gone[of 0 scripted_lambda "''r''" "''f1''" "[]" "[]" 3 ?w,
      THEN conjunct2, unfolded Let_def, rule_format]
  have tr: "?tr =
    [Lam (ListFunctions None (Inr ([''f1'', ''f2''], None))),
     Print ''Deleting Lambda function: f1 in region r'',
     Lam (DeleteFunction ''f1'' (Inr ())),
     Lam (GetFunction ''f1'' (Inr ())),
     Sleep 5,
     Lam (GetFunction ''f1'' (Inr ())),
     Sleep 5,
     Lam (GetFunction ''f1'' (Inl (ClientError ''Rate exceeded''))),
     Print ''Error checking function status: Rate exceeded'',
     Print ''Deleting Lambda function: f2 in region r'',
     Lam (DeleteFunction ''f2'' (Inr ())),
     Lam (GetFunction ''f2'' (Inl (ResourceNotFoundException ''Function not found: f2''))),
     Print ''Deleted Lambda function: f2 in region r'']"
    by (simp add: trace_of_def scripted_lambda_run)
  have len: "length ?tr = 13" by (simp add: tr)
  have e2: "?tr ! 2 = Lam (DeleteFunction ''f1'' (Inr ()))"
    and e5: "?tr ! 5 = Lam (GetFunction ''f1'' (Inr ()))"
    and e7: "?tr ! 7 = Lam (GetFunction ''f1'' (Inl (ClientError ''Rate exceeded'')))"
    and e11: "?tr ! 11 = Lam (GetFunction ''f2'' (Inl (ResourceNotFoundException ''Function not found: f2'')))"
    by (simp_all add: tr)
  from c[of 2 "''f1''", THEN conjunct1] len e2
  have a: "\<exists>r. ?tr ! 3 = Lam (GetFunction ''f1'' r)" by (simp add: eval_nat_numeral)
  from c[of 5 "''f1''", THEN conjunct2, THEN conjunct1] len e5
  have b: "?tr ! 6 = Sleep 5" by (simp add: eval_nat_numeral)
  from c[of 7 "''f1''", THEN conjunct2, THEN conjunct2, rule_format, of "ClientError ''Rate exceeded''"] len e7
  have d: "?tr ! 8 = Print ''Error checking function status: Rate exceeded''" by (simp add: eval_nat_numeral)
  from c[of 11 "''f2''", THEN conjunct2, THEN conjunct2, rule_format,
      of "ResourceNotFoundException ''Function not found: f2''"] len e11
  have f: "?tr ! 12 = Print ''Deleted Lambda function: f2 in region r''" by (simp add: eval_nat_numeral)
  from e2 a e5 b e7 d e11 f show ?thesis unfolding Let_def by blast
qed


section \<open>Routes of a peering connection\<close>

lemma for_each_raised:
  assumes "\<And>x. x \<in> set pre \<Longrightarrow> body x s = (Done (), s)" and "body x s = (Raised f, s')"
  shows "for_each (pre @ x # xs) body s = (Raised f, s')"
  using assms by (induction pre) (simp_all add: ret_def seq_def bind_def)

lemma route_fault_append: "route_fault out es \<Longrightarrow> route_fault out (ds @ es)"
  by (auto simp: route_fault_def)

lemma route_fault_not_done: "route_fault out es \<Longrightarrow> out \<noteq> Done ()"
  by (auto simp: route_fault_def)

lemma delete_peering_route_end:
  assumes "delete_peering_route client pcx rtid r (w, t) = (out, w', t')"
  shows "\<exists>es. t' = t @ es \<and> (\<forall>e \<in> set es. route_event e)
     \<and> (out = Done () \<and> \<not> keyless_route pcx r \<or> route_fault out es)"
proof (cases "VpcPeeringConnectionId r = Some pcx")
  case False
  with assms show ?thesis by (simp add: delete_peering_route_def ret_def keyless_route_def)
next
  case m: True
  show ?thesis
  proof (cases "DestinationCidrBlock r")
    case None
    with m assms show ?thesis by (simp add: delete_peering_route_def raise_def route_fault_def)
  next
    case (Some cidr)
    with m assms have s: "seq (call (\<lambda>res. Peer (DeleteRoute rtid cidr res)) (delete_route client rtid cidr))
        (print (''Deleted route: '' @ cidr @ '' in route table: '' @ rtid)) (w, t) = (out, w', t')"
      by (simp add: delete_peering_route_def)
    from s show ?thesis
    proof (cases rule: seqE)
      case (1 x s')
      obtain w1 t1 where s': "s' = (w1, t1)" by (cases s')
      from 1(1)[unfolded s'] have t1: "t1 = t @ [Peer (DeleteRoute rtid cidr (Inr x))]"
        by (cases rule: callE) simp_all
      from printD[OF 1(2)[unfolded s']] t1
      have "out = Done ()" and "t' = t @ [Peer (DeleteRoute rtid cidr (Inr x)),
          Print (''Deleted route: '' @ cidr @ '' in route table: '' @ rtid)]" by simp_all
      moreover have "\<not> keyless_route pcx r" using Some by (simp add: keyless_route_def)
      ultimately show ?thesis by (auto simp: route_event_def)
    next
      case (2 f)
      from 2(1) have "t' = t @ [Peer (DeleteRoute rtid cidr (Inl f))]"
        by (cases rule: callE) simp_all
      with 2(2) show ?thesis by (auto simp: route_event_def route_fault_def)
    next
      case 3
      from 3(1) show ?thesis by (cases rule: callE) simp_all
    qed
  qed
qed

lemma routes_loop_end:
  assumes "for_each rs (delete_peering_route client pcx rtid) (w, t) = (out, w', t')"
  shows "\<exists>es. t' = t @ es \<and> (\<forall>e \<in> set es. route_event e)
     \<and> (out = Done () \<and> \<not> (\<exists>r \<in> set rs. keyless_route pcx r) \<or> route_fault out es)"
  using assms
proof (induction rs arbitrary: w t)
  case Nil
  then show ?case by (simp add: ret_def)
next
  case (Cons r rs)
  from Cons.prems have s: "seq (delete_peering_route client pcx rtid r)
      (for_each rs (delete_peering_route client pcx rtid)) (w, t) = (out, w', t')" by simp
  from s show ?case
  proof (cases rule: seqE)
    case (1 x s')
    obtain w1 t1 where s': "s' = (w1, t1)" by (cases s')
    from delete_peering_route_end[OF 1(1)[unfolded s']]
    obtain es1 where e1: "t1 = t @ es1" "\<forall>e \<in> set es1. route_event e" "\<not> keyless_route pcx r"
      by (auto dest: route_fault_not_done)
    from Cons.IH[OF 1(2)[unfolded s']]
    obtain es2 where e2: "t' = t1 @ es2" "\<forall>e \<in> set es2. route_event e"
      "out = Done () \<and> \<not> (\<exists>r \<in> set rs. keyless_route pcx r) \<or> route_fault out es2" by auto
    from e1 e2 have "t' = t @ (es1 @ es2)" "\<forall>e \<in> set (es1 @ es2). route_event e"
      "out = Done () \<and> \<not> (\<exists>q \<in> set (r # rs). keyless_route pcx q) \<or> route_fault out (es1 @ es2)"
      by (auto intro: route_fault_append)
    then show ?thesis by blast
  next
    case (2 f)
    from delete_peering_route_end[OF 2(1)] 2(2)
    show ?thesis by auto
  next
    case 3
    from delete_peering_route_end[OF 3(1)] 3(2)
    show ?thesis by auto
  qed
qed

lemma tables_loop_end:
  assumes "for_each tables (\<lambda>route_table. for_each (Routes route_table)
       (delete_peering_route client pcx (RouteTableId route_table))) (w, t) = (out, w', t')"
  shows "\<exists>es. t' = t @ es \<and> (\<forall>e \<in> set es. route_event e)
     \<and> (out = Done () \<and> \<not> keyless_tables pcx tables \<or> route_fault out es)"
  using assms
proof (induction tables arbitrary: w t)
  case Nil
  then show ?case by (simp add: ret_def keyless_tables_def)
next
  case (Cons rt rts)
  from Cons.prems have s: "seq (for_each (Routes rt) (delete_peering_route client pcx (RouteTableId rt)))
      (for_each rts (\<lambda>route_table. for_each (Routes route_table)
       (delete_peering_route client pcx (RouteTableId route_table)))) (w, t) = (out, w', t')" by simp
  from s show ?case
  proof (cases rule: seqE)
    case (1 x s')
    obtain w1 t1 where s': "s' = (w1, t1)" by (cases s')
    from routes_loop_end[OF 1(1)[unfolded s']]
    obtain es1 where e1: "t1 = t @ es1" "\<forall>e \<in> set es1. route_event e"
      "\<not> (\<exists>r \<in> set (Routes rt). keyless_route pcx r)"
      by (auto dest: route_fault_not_done)
    from Cons.IH[OF 1(2)[unfolded s']]
    obtain es2 where e2: "t' = t1 @ es2" "\<forall>e \<in> set es2. route_event e"
      "out = Done () \<and> \<not> keyless_tables pcx rts \<or> route_fault out es2" by auto
    from e1 e2 have "t' = t @ (es1 @ es2)" "\<forall>e \<in> set (es1 @ es2). route_event e"
      "out = Done () \<and> \<not> keyless_tables pcx (rt # rts) \<or> route_fault out (es1 @ es2)"
      by (auto intro: route_fault_append simp: keyless_tables_def)
    then show ?thesis by blast
  next
    case (2 f)
    from routes_loop_end[OF 2(1)] 2(2)
    show ?thesis by auto
  next
    case 3
    from routes_loop_end[OF 3(1)] 3(2)
    show ?thesis by auto
  qed
qed


lemma tables_clean_append:
  assumes "tables_clean t"
    and "\<And>pcx tables nx. Peer (DescribeRouteTables pcx (Inr (tables, nx))) \<in> set es
           \<Longrightarrow> \<not> keyless_tables pcx tables"
  shows "tables_clean (t @ es)"
  using assms unfolding tables_clean_def by auto

lemma route_events_clean:
  assumes "tables_clean t" and "\<forall>e \<in> set es. route_event e"
  shows "tables_clean (t @ es)"
  using assms unfolding tables_clean_def route_event_def by fastforce

lemma clean_peering_ok: "tables_clean t \<Longrightarrow> peering_ok out t"
  unfolding tables_clean_def peering_ok_def
  by (metis nth_mem)

lemma faulted_peering_ok:
  assumes c: "tables_clean pre" and r: "\<forall>e \<in> set es. route_event e" and f: "route_fault out es"
  shows "peering_ok out (pre @ d # es)"
  unfolding peering_ok_def
proof (intro allI impI)
  fix i pcx tables nx
  assume i: "i < length (pre @ d # es)"
    and a: "(pre @ d # es) ! i = Peer (DescribeRouteTables pcx (Inr (tables, nx))) \<and> keyless_tables pcx tables"
  consider "i < length pre" | "i = length pre" | "length pre < i" by arith
  then show "(\<forall>e \<in> set (drop (Suc i) (pre @ d # es)). route_event e)
      \<and> route_fault out (drop (Suc i) (pre @ d # es))"
  proof cases
    case 1
    with a have "pre ! i = Peer (DescribeRouteTables pcx (Inr (tables, nx)))"
      by (simp add: nth_append)
    with 1 have "Peer (DescribeRouteTables pcx (Inr (tables, nx))) \<in> set pre"
      by (metis nth_mem)
    with c a have False unfolding tables_clean_def by blast
    then show ?thesis ..
  next
    case 2
    with r f show ?thesis by simp
  next
    case 3
    with i have j: "i - Suc (length pre) < length es" by simp
    from 3 have "(pre @ d # es) ! i = es ! (i - Suc (length pre))"
      by (simp add: nth_append nth_Cons') 
    with a j r have "route_event (Peer (DescribeRouteTables pcx (Inr (tables, nx))))"
      by (metis nth_mem)
    then show ?thesis by (simp add: route_event_def)
  qed
qed

lemma delete_peering_connection_end:
  assumes c: "tables_clean t"
    and run: "delete_peering_connection client region pcx (w, t) = (out, w', t')"
  shows "out = Done () \<and> tables_clean t' \<or> out \<noteq> Done () \<and> peering_ok out t'"
proof -
  let ?p = "Print (''Deleting VPC peering connection: '' @ pcx @ '' in region '' @ region)"
  have cp: "tables_clean (t @ [?p])" by (rule tables_clean_append[OF c]) simp
  from run[unfolded delete_peering_connection_def] show ?thesis
  proof (cases rule: seqE)
    case (1 x s1)
    from printD[of _ w t "Done x" "fst s1" "snd s1"] 1(1)
    have s1: "s1 = (w, t @ [?p])" by (cases s1) (auto simp: print_def)
    from 1(2)[unfolded s1] show ?thesis
    proof (cases rule: bindE)
      case (1 y s2)
      obtain tables nx where y: "y = (tables, nx)" by (cases y)
      obtain w2 t2 where s2: "s2 = (w2, t2)" by (cases s2)
      from 1(1)[unfolded s2] y
      have t2: "t2 = (t @ [?p]) @ [Peer (DescribeRouteTables pcx (Inr (tables, nx)))]"
        by (cases rule: callE) simp_all
      from 1(2)[unfolded y s2] have rest: "seq (for_each tables (\<lambda>route_table.
                 for_each (Routes route_table)
                   (delete_peering_route client pcx (RouteTableId route_table))))
         (seq (call (\<lambda>r. Peer (DeleteVpcPeeringConnection pcx r))
                 (delete_vpc_peering_connection client pcx))
              (print (''Deleted VPC peering connection: '' @ pcx
                       @ '' in region '' @ region))) (w2, t2) = (out, w', t')" by simp
      from rest show ?thesis
      proof (cases rule: seqE)
        case (1 u s3)
        obtain w3 t3 where s3: "s3 = (w3, t3)" by (cases s3)
        from tables_loop_end[OF 1(1)[unfolded s3]]
        obtain es where es: "t3 = t2 @ es" "\<forall>e \<in> set es. route_event e" "\<not> keyless_tables pcx tables"
          by (auto dest: route_fault_not_done)
        have "tables_clean t2" unfolding t2 by (rule tables_clean_append[OF cp]) (simp add: es(3))
        then have c3: "tables_clean t3" unfolding es(1) by (rule route_events_clean) (rule es(2))
        from 1(2)[unfolded s3] show ?thesis
        proof (cases rule: seqE)
          case (1 v s4)
          obtain w4 t4 where s4: "s4 = (w4, t4)" by (cases s4)
          from 1(1)[unfolded s4] have "t4 = t3 @ [Peer (DeleteVpcPeeringConnection pcx (Inr v))]"
            by (cases rule: callE) simp_all
          with printD[OF 1(2)[unfolded s4]]
          have "out = Done ()" and "t' = t3 @ [Peer (DeleteVpcPeeringConnection pcx (Inr v)),
              Print (''Deleted VPC peering connection: '' @ pcx @ '' in region '' @ region)]"
            by simp_all
          moreover have "tables_clean (t3 @ [Peer (DeleteVpcPeeringConnection pcx (Inr v)),
              Print (''Deleted VPC peering connection: '' @ pcx @ '' in region '' @ region)])"
            by (rule tables_clean_append[OF c3]) simp
          ultimately show ?thesis by simp
        next
          case (2 f)
          from 2(1) have "t' = t3 @ [Peer (DeleteVpcPeeringConnection pcx (Inl f))]"
            by (cases rule: callE) simp_all
          moreover have "tables_clean (t3 @ [Peer (DeleteVpcPeeringConnection pcx (Inl f))])"
            by (rule tables_clean_append[OF c3]) simp
          ultimately show ?thesis using 2(2) by (simp add: clean_peering_ok)
        next
          case 3
          from 3(1) show ?thesis by (cases rule: callE) simp_all
        qed
      next
        case (2 f)
        from tables_loop_end[OF 2(1)] 2(2)
        obtain es where es: "t' = t2 @ es" "\<forall>e \<in> set es. route_event e" "route_fault out es"
          by auto
        have "peering_ok out ((t @ [?p]) @ Peer (DescribeRouteTables pcx (Inr (tables, nx))) # es)"
          by (rule faulted_peering_ok[OF cp es(2) es(3)])
        with es(1) t2 2(2) show ?thesis by simp
      next
        case 3
        from tables_loop_end[OF 3(1)] 3(2) show ?thesis by (auto simp: route_fault_def)
      qed
    next
      case (2 f)
      from 2(1) have "t' = (t @ [?p]) @ [Peer (DescribeRouteTables pcx (Inl f))]"
        by (cases rule: callE) simp_all
      moreover have "tables_clean ((t @ [?p]) @ [Peer (DescribeRouteTables pcx (Inl f))])"
        by (rule tables_clean_append[OF cp]) simp
      ultimately show ?thesis using 2(2) by (simp add: clean_peering_ok)
    next
      case 3
      from 3(1) show ?thesis by (cases rule: callE) simp_all
    qed
  next
    case (2 f)
    then show ?thesis by (simp add: print_def)
  next
    case 3
    then show ?thesis by (simp add: print_def)
  qed
qed

lemma peering_connections_end:
  assumes "tables_clean t"
    and "for_each conns (delete_peering_connection client region) (w, t) = (out, w', t')"
  shows "out = Done () \<and> tables_clean t' \<or> out \<noteq> Done () \<and> peering_ok out t'"
  using assms
proof (induction conns arbitrary: w t)
  case Nil
  then show ?case by (simp add: ret_def)
next
  case (Cons pcx conns)
  from Cons.prems(2) have s: "seq (delete_peering_connection client region pcx)
      (for_each conns (delete_peering_connection client region)) (w, t) = (out, w', t')" by simp
  from s show ?case
  proof (cases rule: seqE)
    case (1 x s')
    obtain w1 t1 where s': "s' = (w1, t1)" by (cases s')
    from delete_peering_connection_end[OF Cons.prems(1) 1(1)[unfolded s']]
    have "tables_clean t1" by simp
    from Cons.IH[OF this 1(2)[unfolded s']] show ?thesis .
  next
    case (2 f)
    from delete_peering_connection_end[OF Cons.prems(1) 2(1)] 2(2) show ?thesis by simp
  next
    case 3
    from delete_peering_connection_end[OF Cons.prems(1) 3(1)] 3(2) show ?thesis by simp
  qed
qed

lemma delete_all_peering_connections_end:
  assumes "run (delete_all_peering_connections client region) w = (out, w', t)"
  shows "peering_ok out t"
proof -
  from assms have b: "bind (call (\<lambda>r. Peer (DescribeVpcPeeringConnections r))
        (describe_vpc_peering_connections client))
       (\<lambda>(connections, _). for_each connections (delete_peering_connection client region)) (w, [])
     = (out, w', t)"
    by (simp add: run_def delete_all_peering_connections_def)
  from b show ?thesis
  proof (cases rule: bindE)
    case (1 x s1)
    obtain conns nx where x: "x = (conns, nx)" by (cases x)
    obtain w1 t1 where s1: "s1 = (w1, t1)" by (cases s1)
    from 1(1)[unfolded s1] have "t1 = [] @ [Peer (DescribeVpcPeeringConnections (Inr x))]"
      by (cases rule: callE) simp_all
    then have "tables_clean t1" by (simp add: tables_clean_def)
    from 1(2)[unfolded x s1]
    have "for_each conns (delete_peering_connection client region) (w1, t1) = (out, w', t)" by simp
    from peering_connections_end[OF \<open>tables_clean t1\<close> this]
    show ?thesis by (auto intro: clean_peering_ok)
  next
    case (2 f)
    from 2(1) have "t = [] @ [Peer (DescribeVpcPeeringConnections (Inl f))]"
      by (cases rule: callE) simp_all
    then have "tables_clean t" by (simp add: tables_clean_def)
    then show ?thesis by (rule clean_peering_ok)
  next
    case 3
    from 3(1) show ?thesis by (cases rule: callE) simp_all
  qed
qed

text \<open>
  C10.  What the route cleanup does with one route of a route table answered for the
  connection \<open>pcx\<close>: a route that does not carry this connection's id is passed over with
  no call; a route that carries it and has a \<^verbatim>\<open>DestinationCidrBlock\<close> gets a
  \<^verbatim>\<open>delete_route\<close> call for that block; a route that carries it and has no such key raises
  \<^verbatim>\<open>KeyError\<close> before any call.  Nothing catches it.  When the first route table answered
  for the first connection holds such a route after routes of other connections, the whole
  procedure ends with that \<^verbatim>\<open>KeyError\<close>, having issued no delete call at all.  In
  general, in any run over any provider, whenever \<^verbatim>\<open>describe_route_tables\<close> has answered
  for a connection a list of tables of which any table holds, at any place, a route that
  carries the connection's id and no \<^verbatim>\<open>DestinationCidrBlock\<close>, the route is not skipped:
  after that answer the run makes only \<^verbatim>\<open>delete_route\<close> calls with their log lines (the
  connection is not deleted and no further connection is looked at), and it ends with an
  uncaught exception, the \<^verbatim>\<open>KeyError\<close> of the missing key or, when the provider refused
  the \<^verbatim>\<open>delete_route\<close> call of an earlier route, the provider's fault of that last call.
\<close>

theorem peering_route_without_cidr_faults:
  "(VpcPeeringConnectionId r \<noteq> Some pcx \<longrightarrow>
      delete_peering_route client pcx rtid r (w, t) = (Done (), w, t))
   \<and> (VpcPeeringConnectionId r = Some pcx \<and> DestinationCidrBlock r = None \<longrightarrow>
      delete_peering_route client pcx rtid r (w, t) = (Raised (KeyError ''DestinationCidrBlock''), w, t))
   \<and> (VpcPeeringConnectionId r = Some pcx \<and> DestinationCidrBlock r = Some cidr \<longrightarrow>
      (\<exists>res w'. delete_route client rtid cidr w = (res, w')
         \<and> take (Suc (length t)) (snd (snd (delete_peering_route client pcx rtid r (w, t))))
             = t @ [Peer (DeleteRoute rtid cidr res)]))
   \<and> (describe_vpc_peering_connections client w0 = (Inr (pcx # others, nx), w1)
      \<and> describe_route_tables client pcx w1 = (Inr (\<lparr>RouteTableId = rtid, Routes = skipped @ r # rs\<rparr> # rts, nx'), w2)
      \<and> (\<forall>q \<in> set skipped. VpcPeeringConnectionId q \<noteq> Some pcx)
      \<and> VpcPeeringConnectionId r = Some pcx \<and> DestinationCidrBlock r = None \<longrightarrow>
      run (delete_all_peering_connections client region) w0 =
        (Raised (KeyError ''DestinationCidrBlock''), w2,
         [Peer (DescribeVpcPeeringConnections (Inr (pcx # others, nx))),
          Print (''Deleting VPC peering connection: '' @ pcx @ '' in region '' @ region),
          Peer (DescribeRouteTables pcx
                 (Inr (\<lparr>RouteTableId = rtid, Routes = skipped @ r # rs\<rparr> # rts, nx')))]))
   \<and> (let (out, w_end, tr) = run (delete_all_peering_connections client region) w0 in
        \<forall>i<length tr. \<forall>c tables tok rt q.
          tr ! i = Peer (DescribeRouteTables c (Inr (tables, tok)))
          \<and> rt \<in> set tables \<and> q \<in> set (Routes rt)
          \<and> VpcPeeringConnectionId q = Some c \<and> DestinationCidrBlock q = None \<longrightarrow>
            (\<forall>e \<in> set (drop (Suc i) tr). route_event e)
          \<and> (out = Raised (KeyError ''DestinationCidrBlock'')
             \<or> (\<exists>rtid' cidr' f. last tr = Peer (DeleteRoute rtid' cidr' (Inl f)) \<and> out = Raised f)))"
proof -
  have c1: "VpcPeeringConnectionId r \<noteq> Some pcx \<longrightarrow>
      delete_peering_route client pcx rtid r (w, t) = (Done (), w, t)"
    by (simp add: delete_peering_route_def ret_def)
  have c2: "VpcPeeringConnectionId r = Some pcx \<and> DestinationCidrBlock r = None \<longrightarrow>
      delete_peering_route client pcx rtid r (w, t) = (Raised (KeyError ''DestinationCidrBlock''), w, t)"
    by (simp add: delete_peering_route_def raise_def)
  have c3: "VpcPeeringConnectionId r = Some pcx \<and> DestinationCidrBlock r = Some cidr \<longrightarrow>
      (\<exists>res w'. delete_route client rtid cidr w = (res, w')
         \<and> take (Suc (length t)) (snd (snd (delete_peering_route client pcx rtid r (w, t))))
             = t @ [Peer (DeleteRoute rtid cidr res)])"
  proof
    assume a: "VpcPeeringConnectionId r = Some pcx \<and> DestinationCidrBlock r = Some cidr"
    obtain res w' where d: "delete_route client rtid cidr w = (res, w')"
      by (cases "delete_route client rtid cidr w")
    have "take (Suc (length t)) (snd (snd (delete_peering_route client pcx rtid r (w, t))))
               = t @ [Peer (DeleteRoute rtid cidr res)]"
      using a d by (cases res) (simp_all add: delete_peering_route_def prog_defs)
    with d show "\<exists>res w'. delete_route client rtid cidr w = (res, w')
           \<and> take (Suc (length t)) (snd (snd (delete_peering_route client pcx rtid r (w, t))))
               = t @ [Peer (DeleteRoute rtid cidr res)]" by blast
  qed
  have c4: "describe_vpc_peering_connections client w0 = (Inr (pcx # others, nx), w1)
      \<and> describe_route_tables client pcx w1 = (Inr (\<lparr>RouteTableId = rtid, Routes = skipped @ r # rs\<rparr> # rts, nx'), w2)
      \<and> (\<forall>q \<in> set skipped. VpcPeeringConnectionId q \<noteq> Some pcx)
      \<and> VpcPeeringConnectionId r = Some pcx \<and> DestinationCidrBlock r = None \<longrightarrow>
      run (delete_all_peering_connections client region) w0 =
        (Raised (KeyError ''DestinationCidrBlock''), w2,
         [Peer (DescribeVpcPeeringConnections (Inr (pcx # others, nx))),
          Print (''Deleting VPC peering connection: '' @ pcx @ '' in region '' @ region),
          Peer (DescribeRouteTables pcx
                 (Inr (\<lparr>RouteTableId = rtid, Routes = skipped @ r # rs\<rparr> # rts, nx')))])"
  proof
    assume a: "describe_vpc_peering_connections client w0 = (Inr (pcx # others, nx), w1)
        \<and> describe_route_tables client pcx w1 = (Inr (\<lparr>RouteTableId = rtid, Routes = skipped @ r # rs\<rparr> # rts, nx'), w2)
        \<and> (\<forall>q \<in> set skipped. VpcPeeringConnectionId q \<noteq> Some pcx)
        \<and> VpcPeeringConnectionId r = Some pcx \<and> DestinationCidrBlock r = None"
    let ?t = "[Peer (DescribeVpcPeeringConnections (Inr (pcx # others, nx))),
            Print (''Deleting VPC peering connection: '' @ pcx @ '' in region '' @ region),
            Peer (DescribeRouteTables pcx
                   (Inr (\<lparr>RouteTableId = rtid, Routes = skipped @ r # rs\<rparr> # rts, nx')))]"
    have routes: "for_each (skipped @ r # rs) (delete_peering_route client pcx rtid) (w2, ?t)
        = (Raised (KeyError ''DestinationCidrBlock''), w2, ?t)"
      using a by (intro for_each_raised) (simp_all add: delete_peering_route_def ret_def raise_def)
    show "run (delete_all_peering_connections client region) w0 =
          (Raised (KeyError ''DestinationCidrBlock''), w2, ?t)"
      using a routes
      by (simp add: run_def delete_all_peering_connections_def delete_peering_connection_def
          bind_def seq_def call_def print_def)
  qed
  have c5: "(let (out, w_end, tr) = run (delete_all_peering_connections client region) w0 in
        \<forall>i<length tr. \<forall>c tables tok rt q.
          tr ! i = Peer (DescribeRouteTables c (Inr (tables, tok)))
          \<and> rt \<in> set tables \<and> q \<in> set (Routes rt)
          \<and> VpcPeeringConnectionId q = Some c \<and> DestinationCidrBlock q = None \<longrightarrow>
            (\<forall>e \<in> set (drop (Suc i) tr). route_event e)
          \<and> (out = Raised (KeyError ''DestinationCidrBlock'')
             \<or> (\<exists>rtid' cidr' f. last tr = Peer (DeleteRoute rtid' cidr' (Inl f)) \<and> out = Raised f)))"
  proof -
    obtain out w_end tr where eq: "run (delete_all_peering_connections client region) w0 = (out, w_end, tr)"
      by (cases "run (delete_all_peering_connections client region) w0") auto
    have ok: "peering_ok out tr" by (rule delete_all_peering_connections_end[OF eq])
    have "\<forall>i<length tr. \<forall>c tables tok rt q.
          tr ! i = Peer (DescribeRouteTables c (Inr (tables, tok)))
          \<and> rt \<in> set tables \<and> q \<in> set (Routes rt)
          \<and> VpcPeeringConnectionId q = Some c \<and> DestinationCidrBlock q = None \<longrightarrow>
            (\<forall>e \<in> set (drop (Suc i) tr). route_event e)
          \<and> (out = Raised (KeyError ''DestinationCidrBlock'')
             \<or> (\<exists>rtid' cidr' f. last tr = Peer (DeleteRoute rtid' cidr' (Inl f)) \<and> out = Raised f))"
    proof (intro allI impI)
      fix i c tables tok rt q
      assume i: "i < length tr"
        and a: "tr ! i = Peer (DescribeRouteTables c (Inr (tables, tok)))
          \<and> rt \<in> set tables \<and> q \<in> set (Routes rt)
          \<and> VpcPeeringConnectionId q = Some c \<and> DestinationCidrBlock q = None"
      from a have k: "keyless_tables c tables"
        unfolding keyless_tables_def keyless_route_def by blast
      from ok[unfolded peering_ok_def, rule_format, OF i] a k
      have ev: "\<forall>e \<in> set (drop (Suc i) tr). route_event e"
        and rf: "route_fault out (drop (Suc i) tr)" by blast+
      from rf have "out = Raised (KeyError ''DestinationCidrBlock'')
             \<or> (\<exists>rtid' cidr' f. last tr = Peer (DeleteRoute rtid' cidr' (Inl f)) \<and> out = Raised f)"
        unfolding route_fault_def
      proof (elim disjE exE conjE)
        assume "out = Raised (KeyError ''DestinationCidrBlock'')"
        then show ?thesis by simp
      next
        fix rtid' cidr' f
        assume ne: "drop (Suc i) tr \<noteq> []"
          and l: "last (drop (Suc i) tr) = Peer (DeleteRoute rtid' cidr' (Inl f))"
          and o: "out = Raised f"
        from ne have "Suc i < length tr" by simp
        then have "last (drop (Suc i) tr) = last tr" by (rule last_drop)
        with l o show ?thesis by auto
      qed
      with ev show "(\<forall>e \<in> set (drop (Suc i) tr). route_event e)
          \<and> (out = Raised (KeyError ''DestinationCidrBlock'')
             \<or> (\<exists>rtid' cidr' f. last tr = Peer (DeleteRoute rtid' cidr' (Inl f)) \<and> out = Raised f))" ..
    qed
    then show ?thesis unfolding eq Let_def prod.case .
  qed
  show ?thesis by (rule conjI[OF c1 conjI[OF c2 conjI[OF c3 conjI[OF c4 c5]]]])
qed

lemmas test_ec2_defs = test_ec2_def test_describe_route_tables_def test_delete_route_def
  test_terminate_instances_def page_from_def token_of_def empty_region_def

lemma keyless_second_table_run:
  "run (delete_all_peering_connections test_ec2 ''r'') keyless_second_table =
     (Raised (KeyError ''DestinationCidrBlock''),
      keyless_second_table\<lparr>route_tables :=
       [\<lparr>RouteTableId = ''rtb-1'', Routes = []\<rparr>,
        \<lparr>RouteTableId = ''rtb-2'', Routes =
          [\<lparr>VpcPeeringConnectionId = None, DestinationCidrBlock = Some ''10.0.0.0/16''\<rparr>,
           \<lparr>VpcPeeringConnectionId = Some ''pcx-1'', DestinationCidrBlock = None\<rparr>]\<rparr>]\<rparr>,
      [Peer (DescribeVpcPeeringConnections (Inr ([''pcx-1''], None))),
       Print ''Deleting VPC peering connection: pcx-1 in region r'',
       Peer (DescribeRouteTables ''pcx-1''
              (Inr ([\<lparr>RouteTableId = ''rtb-1'', Routes =
                       [\<lparr>VpcPeeringConnectionId = Some ''pcx-1'', DestinationCidrBlock = Some ''10.1.0.0/16''\<rparr>]\<rparr>,
                     \<lparr>RouteTableId = ''rtb-2'', Routes =
                       [\<lparr>VpcPeeringConnectionId = None, DestinationCidrBlock = Some ''10.0.0.0/16''\<rparr>,
                        \<lparr>VpcPeeringConnectionId = Some ''pcx-1'', DestinationCidrBlock = None\<rparr>]\<rparr>], None))),
       Peer (DeleteRoute ''rtb-1'' ''10.1.0.0/16'' (Inr ())),
       Print ''Deleted route: 10.1.0.0/16 in route table: rtb-1''])"
  by (simp add: run_def delete_all_peering_connections_def delete_peering_connection_def
      delete_peering_route_def prog_defs test_ec2_defs keyless_second_table_def)

text \<open>
  A route table with a local route and an IPv6 route to the connection; and the region whose
  second table holds the key-less route, after a route with a block in the first.
\<close>

theorem peering_route_without_cidr_faults_witness:
  "run (delete_all_peering_connections test_ec2 ''r'') ipv6_peering_route =
     (Raised (KeyError ''DestinationCidrBlock''), ipv6_peering_route,
      [Peer (DescribeVpcPeeringConnections (Inr ([''pcx-1''], None))),
       Print ''Deleting VPC peering connection: pcx-1 in region r'',
       Peer (DescribeRouteTables ''pcx-1''
              (Inr ([\<lparr>RouteTableId = ''rtb-1'', Routes =
                 [\<lparr>VpcPeeringConnectionId = None, DestinationCidrBlock = Some ''10.0.0.0/16''\<rparr>,
                  \<lparr>VpcPeeringConnectionId = Some ''pcx-1'', DestinationCidrBlock = None\<rparr>]\<rparr>], None)))])
   \<and> delete_peering_route test_ec2 ''pcx-1'' ''rtb-1''
        \<lparr>VpcPeeringConnectionId = None, DestinationCidrBlock = Some ''10.0.0.0/16''\<rparr> (empty_region, [])
      = (Done (), empty_region, [])
   \<and> delete_peering_route test_ec2 ''pcx-1'' ''rtb-1''
        \<lparr>VpcPeeringConnectionId = Some ''pcx-1'', DestinationCidrBlock = None\<rparr> (empty_region, [])
      = (Raised (KeyError ''DestinationCidrBlock''), empty_region, [])
   \<and> take (Suc 0) (snd (snd (delete_peering_route test_ec2 ''pcx-1'' ''rtb-1''
        \<lparr>VpcPeeringConnectionId = Some ''pcx-1'', DestinationCidrBlock = Some ''10.1.0.0/16''\<rparr>
        (empty_region, []))))
      = [Peer (DeleteRoute ''rtb-1'' ''10.1.0.0/16'' (Inr ()))]
   \<and> (let (out, w_end, tr) = run (delete_all_peering_connections test_ec2 ''r'') keyless_second_table in
        out = Raised (KeyError ''DestinationCidrBlock'')
        \<and> length tr = 5
        \<and> tr ! 3 = Peer (DeleteRoute ''rtb-1'' ''10.1.0.0/16'' (Inr ()))
        \<and> route_event (tr ! 3) \<and> route_event (tr ! 4))"
proof -
  let ?local = "\<lparr>VpcPeeringConnectionId = None, DestinationCidrBlock = Some ''10.0.0.0/16''\<rparr>"
  let ?v6 = "\<lparr>VpcPeeringConnectionId = Some ''pcx-1'', DestinationCidrBlock = None\<rparr>"
  let ?v4 = "\<lparr>VpcPeeringConnectionId = Some ''pcx-1'', DestinationCidrBlock = Some ''10.1.0.0/16''\<rparr>"
  let ?rt1 = "\<lparr>RouteTableId = ''rtb-1'', Routes = [?v4]\<rparr>"
  let ?rt2 = "\<lparr>RouteTableId = ''rtb-2'', Routes = [?local, ?v6]\<rparr>"
  have h1: "describe_vpc_peering_connections test_ec2 ipv6_peering_route
      = (Inr ([''pcx-1''], None), ipv6_peering_route)"
    by (simp add: test_ec2_defs ipv6_peering_route_def)
  have h2: "describe_route_tables test_ec2 ''pcx-1'' ipv6_peering_route
      = (Inr ([\<lparr>RouteTableId = ''rtb-1'', Routes = [?local] @ ?v6 # []\<rparr>], None), ipv6_peering_route)"
    by (simp add: test_ec2_defs ipv6_peering_route_def)
  have a: "run (delete_all_peering_connections test_ec2 ''r'') ipv6_peering_route =
     (Raised (KeyError ''DestinationCidrBlock''), ipv6_peering_route,
      [Peer (DescribeVpcPeeringConnections (Inr ([''pcx-1''], None))),
       Print (''Deleting VPC peering connection: '' @ ''pcx-1'' @ '' in region '' @ ''r''),
       Peer (DescribeRouteTables ''pcx-1''
              (Inr ([\<lparr>RouteTableId = ''rtb-1'', Routes = [?local] @ ?v6 # []\<rparr>], None)))])"
    using peering_route_without_cidr_faults[of ?v6 "''pcx-1''" test_ec2 "''rtb-1''" empty_region "[]"
        "''x''" ipv6_peering_route "[]" None ipv6_peering_route "[?local]" "[]" "[]" None
        ipv6_peering_route "''r''", THEN conjunct2, THEN conjunct2, THEN conjunct2, THEN conjunct1] h1 h2
    by simp
  have b: "delete_peering_route test_ec2 ''pcx-1'' ''rtb-1'' ?local (empty_region, []) = (Done (), empty_region, [])"
    using peering_route_without_cidr_faults[of ?local "''pcx-1''" test_ec2 "''rtb-1''" empty_region "[]",
        THEN conjunct1] by simp
  have c: "delete_peering_route test_ec2 ''pcx-1'' ''rtb-1'' ?v6 (empty_region, [])
      = (Raised (KeyError ''DestinationCidrBlock''), empty_region, [])"
    using peering_route_without_cidr_faults[of ?v6 "''pcx-1''" test_ec2 "''rtb-1''" empty_region "[]",
        THEN conjunct2, THEN conjunct1] by simp
  have "\<exists>res w'. delete_route test_ec2 ''rtb-1'' ''10.1.0.0/16'' empty_region = (res, w')
         \<and> take (Suc (length ([] :: event list)))
              (snd (snd (delete_peering_route test_ec2 ''pcx-1'' ''rtb-1'' ?v4 (empty_region, []))))
             = [] @ [Peer (DeleteRoute ''rtb-1'' ''10.1.0.0/16'' res)]"
    using peering_route_without_cidr_faults[of ?v4 "''pcx-1''" test_ec2 "''rtb-1''" empty_region "[]"
        "''10.1.0.0/16''", THEN conjunct2, THEN conjunct2, THEN conjunct1] by simp
  then have d: "take (Suc 0) (snd (snd (delete_peering_route test_ec2 ''pcx-1'' ''rtb-1'' ?v4 (empty_region, []))))
      = [Peer (DeleteRoute ''rtb-1'' ''10.1.0.0/16'' (Inr ()))]"
    by (auto simp: test_ec2_defs)
  note g = peering_route_without_cidr_faults[where client = test_ec2 and region = "''r''"
      and ?w0.0 = keyless_second_table, THEN conjunct2, THEN conjunct2, THEN conjunct2, THEN conjunct2,
      unfolded keyless_second_table_run Let_def prod.case, rule_format,
      of 2 "''pcx-1''" "[?rt1, ?rt2]" None ?rt2 ?v6]
  have e: "(\<forall>e \<in> set [Peer (DeleteRoute ''rtb-1'' ''10.1.0.0/16'' (Inr ())),
                Print ''Deleted route: 10.1.0.0/16 in route table: rtb-1'']. route_event e)
     \<and> (Raised (KeyError ''DestinationCidrBlock'') = (Raised (KeyError ''DestinationCidrBlock'') :: unit outcome)
        \<or> (\<exists>rtid' cidr' f. Print ''Deleted route: 10.1.0.0/16 in route table: rtb-1''
              = Peer (DeleteRoute rtid' cidr' (Inl f))
            \<and> (Raised (KeyError ''DestinationCidrBlock'') :: unit outcome) = Raised f))"
    using g by simp
  have f: "(let (out, w_end, tr) = run (delete_all_peering_connections test_ec2 ''r'') keyless_second_table in
        out = Raised (KeyError ''DestinationCidrBlock'')
        \<and> length tr = 5
        \<and> tr ! 3 = Peer (DeleteRoute ''rtb-1'' ''10.1.0.0/16'' (Inr ()))
        \<and> route_event (tr ! 3) \<and> route_event (tr ! 4))"
    unfolding keyless_second_table_run Let_def prod.case using e by simp
  from a b c d f show ?thesis by simp
qed

section \<open>Status filters of the two stack passes\<close>

lemma listed_for_mono: "listed_for t f n s \<Longrightarrow> listed_for (t @ es) f n s"
  by (auto simp: listed_for_def)

lemma delete_justified_mono: "delete_justified t n \<Longrightarrow> delete_justified (t @ es) n"
  by (auto simp: delete_justified_def intro: listed_for_mono)

lemma filters_inv_snoc:
  assumes "filters_inv t"
    and "\<And>f tok r. e = Cfn (ListStacks f tok r) \<Longrightarrow> f = first_pass_statuses \<or> f = second_pass_statuses"
    and "\<And>n r. e = Cfn (DeleteStack n r) \<Longrightarrow> delete_justified t n"
  shows "filters_inv (t @ [e])"
  using assms unfolding filters_inv_def
  by simp (blast intro: delete_justified_mono)

lemma page_listed_snoc:
  assumes "page_listed statuses ss t"
    and "\<And>f tok r. e \<noteq> Cfn (ListStacks f tok r)"
    and "\<And>n r. e = Cfn (DeleteStack n r) \<Longrightarrow> delete_justified t n"
  shows "page_listed statuses ss (t @ [e])"
  using assms unfolding page_listed_def
  by (auto intro!: filters_inv_snoc)

lemma page_listed_justifies:
  assumes "page_listed statuses ss t" and "s \<in> set ss" and "selected (StackName s)"
    and "statuses = first_pass_statuses \<and> selected = in_first_pass
       \<or> statuses = second_pass_statuses \<and> selected = in_second_pass"
  shows "delete_justified t (StackName s)"
  using assms unfolding page_listed_def delete_justified_def listed_for_def
  by blast

lemma delete_one_stack_filters:
  assumes j: "\<And>t. page_listed statuses ss t \<Longrightarrow> delete_justified t n"
  shows "hoare (page_listed statuses ss) (delete_one_stack client region wait n)
           (\<lambda>_. page_listed statuses ss) filters_inv"
proof -
  have pl: "\<And>t. page_listed statuses ss t \<Longrightarrow> filters_inv t" by (simp add: page_listed_def)
  have step: "hoare (page_listed statuses ss) (delete_one_stack client region wait n)
           (\<lambda>_. page_listed statuses ss) (page_listed statuses ss)"
    unfolding delete_one_stack_def
    apply (rule hoare_bind[where R = "\<lambda>_. page_listed statuses ss"])
     apply (rule hoare_call; rule page_listed_snoc; simp)
    apply (simp split: list.split)
    apply (intro conjI allI impI hoare_raise hoare_print hoare_seq[where R = "page_listed statuses ss"]
        hoare_call hoare_ret page_listed_snoc; (simp add: j delete_justified_mono)?)
       apply (auto intro: j)
    done
  show ?thesis by (rule hoare_weaken[OF step]) (simp_all add: pl)
qed


lemma stack_pass_filters:
  assumes ok: "statuses = first_pass_statuses \<and> selected = in_first_pass
       \<or> statuses = second_pass_statuses \<and> selected = in_second_pass"
  shows "hoare filters_inv (stack_pass client fuel region wait statuses selected)
           (\<lambda>_. filters_inv) filters_inv"
  unfolding stack_pass_def
proof (rule hoare_for_pages[where J = "\<lambda>p. page_listed statuses (fst p)"])
  fix tok
  show "hoare filters_inv (call (\<lambda>r. Cfn (ListStacks statuses tok r)) (list_stacks client statuses tok))
          (\<lambda>p. page_listed statuses (fst p)) filters_inv"
  proof (rule hoare_call)
    fix t and x :: "stack_summary page" assume t: "filters_inv t"
    have "filters_inv (t @ [Cfn (ListStacks statuses tok (Inr x))])"
      using ok by (intro filters_inv_snoc[OF t]) auto
    moreover have "\<exists>tk nx. Cfn (ListStacks statuses tk (Inr (fst x, nx)))
        \<in> set (t @ [Cfn (ListStacks statuses tok (Inr x))])"
      by (cases x) auto
    ultimately show "page_listed statuses (fst x) (t @ [Cfn (ListStacks statuses tok (Inr x))])"
      by (simp add: page_listed_def)
  next
    fix t f assume t: "filters_inv t"
    show "filters_inv (t @ [Cfn (ListStacks statuses tok (Inl f))])"
      using ok by (intro filters_inv_snoc[OF t]) auto
  qed
next
  fix items :: "stack_summary list" and nx :: "token option"
  have "hoare (page_listed statuses items)
          (for_each items (\<lambda>stack. if selected (StackName stack)
             then delete_one_stack client region wait (StackName stack) else ret ()))
          (\<lambda>_. page_listed statuses items) filters_inv"
  proof (rule hoare_for_each)
    fix s assume s: "s \<in> set items"
    show "hoare (page_listed statuses items)
            (if selected (StackName s) then delete_one_stack client region wait (StackName s) else ret ())
            (\<lambda>_. page_listed statuses items) filters_inv"
    proof (cases "selected (StackName s)")
      case True
      have "hoare (page_listed statuses items) (delete_one_stack client region wait (StackName s))
            (\<lambda>_. page_listed statuses items) filters_inv"
        by (rule delete_one_stack_filters) (rule page_listed_justifies[OF _ s True ok])
      with True show ?thesis by simp
    next
      case False
      then show ?thesis by (simp add: hoare_ret)
    qed
  qed
  then show "hoare (page_listed statuses (fst (items, nx)))
          (for_each items (\<lambda>stack. if selected (StackName stack)
             then delete_one_stack client region wait (StackName stack) else ret ()))
          (\<lambda>_. filters_inv) filters_inv"
    by (rule hoare_weaken) (simp_all add: page_listed_def)
qed simp

lemma delete_all_stacks_filters:
  "filters_inv (trace_of (delete_all_stacks client fuel region wait) w)"
proof -
  have "hoare filters_inv (delete_all_stacks client fuel region wait) (\<lambda>_. filters_inv) filters_inv"
    unfolding delete_all_stacks_def
    by (rule hoare_seq; rule stack_pass_filters; simp)
  moreover have "filters_inv []" by (simp add: filters_inv_def)
  ultimately show ?thesis by (rule hoare_run)
qed

text \<open>
  C9.  In any run of the stack teardown over any provider: every \<^verbatim>\<open>list_stacks\<close> call
  asks for one of two status lists, the one with \<^verbatim>\<open>DELETE_FAILED\<close> or the one without;
  every \<^verbatim>\<open>delete_stack\<close> call is for a stack that was answered either to a listing with
  \<^verbatim>\<open>DELETE_FAILED\<close> in its filter, and then its name contains \<^verbatim>\<open>AppPipe\<close> or
  \<^verbatim>\<open>AppIngestion\<close>, or to a listing without, and then its name does not contain
  \<^verbatim>\<open>AppPipe\<close>.  Consequently, when the provider honours the filters (answers only stacks
  whose status is in the filter asked for), each delete call goes back to a listed summary
  that is in \<^verbatim>\<open>DELETE_FAILED\<close> only if the name contains one of the two substrings.
\<close>

theorem stack_status_filters:
  "(let t = trace_of (delete_all_stacks client fuel region wait) w in
     (\<forall>f tok r. Cfn (ListStacks f tok r) \<in> set t \<longrightarrow>
        f = [''CREATE_COMPLETE'', ''UPDATE_COMPLETE'', ''ROLLBACK_COMPLETE'', ''DELETE_FAILED'']
      \<or> f = [''CREATE_COMPLETE'', ''UPDATE_COMPLETE'', ''ROLLBACK_COMPLETE''])
   \<and> (\<forall>n r. Cfn (DeleteStack n r) \<in> set t \<longrightarrow>
        (\<exists>s. listed_for t [''CREATE_COMPLETE'', ''UPDATE_COMPLETE'', ''ROLLBACK_COMPLETE'', ''DELETE_FAILED''] n s
               \<and> (contains ''AppPipe'' n \<or> contains ''AppIngestion'' n)
           \<or> listed_for t [''CREATE_COMPLETE'', ''UPDATE_COMPLETE'', ''ROLLBACK_COMPLETE''] n s
               \<and> \<not> contains ''AppPipe'' n))
   \<and> ((\<forall>f tok ss nx s. Cfn (ListStacks f tok (Inr (ss, nx))) \<in> set t \<and> s \<in> set ss
          \<longrightarrow> StackStatus s \<in> set f) \<longrightarrow>
       (\<forall>n r. Cfn (DeleteStack n r) \<in> set t \<longrightarrow>
          (\<exists>s f. listed_for t f n s
             \<and> (StackStatus s = ''DELETE_FAILED'' \<longrightarrow> contains ''AppPipe'' n \<or> contains ''AppIngestion'' n)))))"
proof -
  define t where "t = trace_of (delete_all_stacks client fuel region wait) w"
  have inv: "filters_inv t" unfolding t_def by (rule delete_all_stacks_filters)
  have a: "\<forall>f tok r. Cfn (ListStacks f tok r) \<in> set t \<longrightarrow>
        f = [''CREATE_COMPLETE'', ''UPDATE_COMPLETE'', ''ROLLBACK_COMPLETE'', ''DELETE_FAILED'']
      \<or> f = [''CREATE_COMPLETE'', ''UPDATE_COMPLETE'', ''ROLLBACK_COMPLETE'']"
    using inv unfolding filters_inv_def first_pass_statuses_def second_pass_statuses_def by blast
  have b: "\<forall>n r. Cfn (DeleteStack n r) \<in> set t \<longrightarrow>
        (\<exists>s. listed_for t [''CREATE_COMPLETE'', ''UPDATE_COMPLETE'', ''ROLLBACK_COMPLETE'', ''DELETE_FAILED''] n s
               \<and> (contains ''AppPipe'' n \<or> contains ''AppIngestion'' n)
           \<or> listed_for t [''CREATE_COMPLETE'', ''UPDATE_COMPLETE'', ''ROLLBACK_COMPLETE''] n s
               \<and> \<not> contains ''AppPipe'' n)"
    using inv unfolding filters_inv_def delete_justified_def first_pass_statuses_def
      second_pass_statuses_def in_first_pass_def in_second_pass_def by blast
  have c: "\<forall>n r. Cfn (DeleteStack n r) \<in> set t \<longrightarrow>
          (\<exists>s f. listed_for t f n s
             \<and> (StackStatus s = ''DELETE_FAILED'' \<longrightarrow> contains ''AppPipe'' n \<or> contains ''AppIngestion'' n))"
    if honest: "\<forall>f tok ss nx s. Cfn (ListStacks f tok (Inr (ss, nx))) \<in> set t \<and> s \<in> set ss
          \<longrightarrow> StackStatus s \<in> set f"
  proof (intro allI impI)
    fix n r assume "Cfn (DeleteStack n r) \<in> set t"
    with b obtain s where s:
      "listed_for t [''CREATE_COMPLETE'', ''UPDATE_COMPLETE'', ''ROLLBACK_COMPLETE'', ''DELETE_FAILED''] n s
               \<and> (contains ''AppPipe'' n \<or> contains ''AppIngestion'' n)
           \<or> listed_for t [''CREATE_COMPLETE'', ''UPDATE_COMPLETE'', ''ROLLBACK_COMPLETE''] n s
               \<and> \<not> contains ''AppPipe'' n" by blast
    then show "\<exists>s f. listed_for t f n s
             \<and> (StackStatus s = ''DELETE_FAILED'' \<longrightarrow> contains ''AppPipe'' n \<or> contains ''AppIngestion'' n)"
    proof
      assume "listed_for t [''CREATE_COMPLETE'', ''UPDATE_COMPLETE'', ''ROLLBACK_COMPLETE'', ''DELETE_FAILED''] n s
               \<and> (contains ''AppPipe'' n \<or> contains ''AppIngestion'' n)"
      then show ?thesis by blast
    next
      assume l: "listed_for t [''CREATE_COMPLETE'', ''UPDATE_COMPLETE'', ''ROLLBACK_COMPLETE''] n s
               \<and> \<not> contains ''AppPipe'' n"
      then have "StackStatus s \<in> set [''CREATE_COMPLETE'', ''UPDATE_COMPLETE'', ''ROLLBACK_COMPLETE'']"
        using honest unfolding listed_for_def by blast
      then have "StackStatus s \<noteq> ''DELETE_FAILED''" by auto
      with l show ?thesis by blast
    qed
  qed
  from a b c show ?thesis unfolding t_def Let_def by blast
qed

lemma failed_stacks_trace:
  "trace_of (delete_all_stacks test_cloudformation 2 ''r'' False) failed_stacks =
    [Cfn (ListStacks [''CREATE_COMPLETE'', ''UPDATE_COMPLETE'', ''ROLLBACK_COMPLETE'', ''DELETE_FAILED''] None
       (Inr ([\<lparr>StackName = ''AppPipe-old'', StackStatus = ''DELETE_FAILED''\<rparr>,
              \<lparr>StackName = ''legacy'', StackStatus = ''DELETE_FAILED''\<rparr>,
              \<lparr>StackName = ''web'', StackStatus = ''CREATE_COMPLETE''\<rparr>], None))),
     Cfn (DescribeStacks ''AppPipe-old'' (Inr [\<lparr>EnableTerminationProtection = False\<rparr>])),
     Print ''Deleting stack: AppPipe-old in region r'',
     Cfn (DeleteStack ''AppPipe-old'' (Inr ())),
     Cfn (ListStacks [''CREATE_COMPLETE'', ''UPDATE_COMPLETE'', ''ROLLBACK_COMPLETE''] None
       (Inr ([\<lparr>StackName = ''web'', StackStatus = ''CREATE_COMPLETE''\<rparr>], None))),
     Cfn (DescribeStacks ''web'' (Inr [\<lparr>EnableTerminationProtection = False\<rparr>])),
     Print ''Deleting stack: web in region r'',
     Cfn (DeleteStack ''web'' (Inr ()))]"
  by (simp add: trace_of_def run_def stack_defs prog_defs test_defs failed_stacks_def numeral_2_eq_2 sublist_code)

text \<open>
  Two stacks in \<^verbatim>\<open>DELETE_FAILED\<close>: the application pipeline stack is deleted, the other is
  never targeted.
\<close>

theorem stack_status_filters_witness:
  "(let t = trace_of (delete_all_stacks test_cloudformation 2 ''r'' False) failed_stacks in
     Cfn (DeleteStack ''AppPipe-old'' (Inr ())) \<in> set t
   \<and> (\<exists>s f. listed_for t f ''AppPipe-old'' s \<and> StackStatus s = ''DELETE_FAILED''
         \<and> (contains ''AppPipe'' ''AppPipe-old'' \<or> contains ''AppIngestion'' ''AppPipe-old''))
   \<and> Cfn (DeleteStack ''web'' (Inr ())) \<in> set t
   \<and> (\<exists>s. listed_for t [''CREATE_COMPLETE'', ''UPDATE_COMPLETE'', ''ROLLBACK_COMPLETE''] ''web'' s
         \<and> \<not> contains ''AppPipe'' ''web'')
   \<and> (\<forall>r. Cfn (DeleteStack ''legacy'' r) \<notin> set t))"
proof -
  let ?t = "trace_of (delete_all_stacks test_cloudformation 2 ''r'' False) failed_stacks"
  note c = stack_status_filters[of test_cloudformation 2 "''r''" False failed_stacks, unfolded Let_def]
  have honest: "\<forall>f tok ss nx s. Cfn (ListStacks f tok (Inr (ss, nx))) \<in> set ?t \<and> s \<in> set ss
          \<longrightarrow> StackStatus s \<in> set f"
    by (auto simp: failed_stacks_trace)
  have d1: "Cfn (DeleteStack ''AppPipe-old'' (Inr ())) \<in> set ?t"
    and d2: "Cfn (DeleteStack ''web'' (Inr ())) \<in> set ?t"
    and d3: "\<forall>r. Cfn (DeleteStack ''legacy'' r) \<notin> set ?t"
    by (simp_all add: failed_stacks_trace)
  from c[THEN conjunct2, THEN conjunct2, THEN mp, OF honest, rule_format, OF d1]
  obtain s f where s: "listed_for ?t f ''AppPipe-old'' s"
    and imp: "StackStatus s = ''DELETE_FAILED'' \<longrightarrow>
               contains ''AppPipe'' ''AppPipe-old'' \<or> contains ''AppIngestion'' ''AppPipe-old''"
    by blast
  from s have st: "StackStatus s = ''DELETE_FAILED''"
    by (auto simp: listed_for_def failed_stacks_trace)
  from c[THEN conjunct2, THEN conjunct1, rule_format, OF d2]
  obtain s' where
     "listed_for ?t [''CREATE_COMPLETE'', ''UPDATE_COMPLETE'', ''ROLLBACK_COMPLETE'', ''DELETE_FAILED''] ''web'' s'
               \<and> (contains ''AppPipe'' ''web'' \<or> contains ''AppIngestion'' ''web'')
           \<or> listed_for ?t [''CREATE_COMPLETE'', ''UPDATE_COMPLETE'', ''ROLLBACK_COMPLETE''] ''web'' s'
               \<and> \<not> contains ''AppPipe'' ''web''" by blast
  moreover have "\<not> (contains ''AppPipe'' ''web'' \<or> contains ''AppIngestion'' ''web'')"
    by (simp add: contains_def sublist_code)
  ultimately have w: "\<exists>s. listed_for ?t [''CREATE_COMPLETE'', ''UPDATE_COMPLETE'', ''ROLLBACK_COMPLETE''] ''web'' s
         \<and> \<not> contains ''AppPipe'' ''web''" by blast
  from d1 s st imp w d2 d3 show ?thesis unfolding Let_def by blast
qed


section \<open>The two stack passes\<close>

text \<open>
  C5.  The name test of the first pass takes the names that contain \<^verbatim>\<open>AppPipe\<close> or
  \<^verbatim>\<open>AppIngestion\<close>; the name test of the second pass leaves out only the names that
  contain \<^verbatim>\<open>AppPipe\<close>.  A name such as \<^verbatim>\<open>AppIngestion-core\<close> passes both.  On a
  region whose only stack has that name and termination protection, the first pass lists the
  stack, describes it and logs the skip, and after it the second pass lists the same stack,
  describes it again and logs the skip again.
\<close>

theorem ingestion_stack_processed_twice:
  "in_first_pass ''AppIngestion-core'' \<and> in_second_pass ''AppIngestion-core''
   \<and> run (delete_all_stacks test_cloudformation 1 ''r'' False) protected_ingestion_stack =
     (Done (), protected_ingestion_stack,
      [Cfn (ListStacks first_pass_statuses None
             (Inr ([\<lparr>StackName = ''AppIngestion-core'', StackStatus = ''CREATE_COMPLETE''\<rparr>], None))),
       Cfn (DescribeStacks ''AppIngestion-core'' (Inr [\<lparr>EnableTerminationProtection = True\<rparr>])),
       Print ''Skipping stack: AppIngestion-core in region r due to termination protection'',
       Cfn (ListStacks second_pass_statuses None
             (Inr ([\<lparr>StackName = ''AppIngestion-core'', StackStatus = ''CREATE_COMPLETE''\<rparr>], None))),
       Cfn (DescribeStacks ''AppIngestion-core'' (Inr [\<lparr>EnableTerminationProtection = True\<rparr>])),
       Print ''Skipping stack: AppIngestion-core in region r due to termination protection''])"
  by (simp add: run_def stack_defs prog_defs test_defs protected_ingestion_stack_def sublist_code)

section \<open>Empty listings\<close>

lemma for_pages_empty:
  assumes "0 < fuel" and "fetch None s = (Done ([], None), s')" and "body [] = ret ()"
  shows "for_pages fuel fetch body None s = (Done (), s')"
  using assms by (cases fuel) (simp_all add: bind_def seq_def ret_def)

lemma call_answer:
  "op w = (Inr x, w') \<Longrightarrow> call ev op (w, t) = (Done x, w', t @ [ev (Inr x)])"
  by (simp add: call_def)

lemma seq_done: "m s = (Done (), s') \<Longrightarrow> seq m k s = k s'"
  by (simp add: seq_def bind_def)

lemma stacks_empty:
  assumes "0 < fuel" and "list_stacks cfn first_pass_statuses None w = (Inr ([], None), w1)"
    and "list_stacks cfn second_pass_statuses None w1 = (Inr ([], None), w2)"
  shows "delete_all_stacks cfn fuel region wait (w, t) =
        (Done (), w2, t @ [Cfn (ListStacks first_pass_statuses None (Inr ([], None))),
                           Cfn (ListStacks second_pass_statuses None (Inr ([], None)))])"
  using assms by (simp add: delete_all_stacks_def stack_pass_def seq_def bind_def
        for_pages_empty call_answer)

lemma auto_scaling_groups_empty:
  assumes "0 < fuel" and "describe_auto_scaling_groups asg None w = (Inr ([], None), w1)"
  shows "delete_all_auto_scaling_groups asg fuel region (w, t) =
        (Done (), w1, t @ [Asg (DescribeAutoScalingGroups None (Inr ([], None)))])"
  using assms by (simp add: delete_all_auto_scaling_groups_def for_pages_empty call_answer)

lemma lambda_functions_empty:
  assumes "0 < fuel" and "list_functions lam None w = (Inr ([], None), w1)"
  shows "delete_all_lambda_functions lam fuel region (w, t) =
        (Done (), w1, t @ [Lam (ListFunctions None (Inr ([], None)))])"
  using assms by (simp add: delete_all_lambda_functions_def for_pages_empty call_answer)

lemma opensearch_clusters_empty:
  assumes "list_domain_names ops w = (Inr [], w1)"
  shows "delete_all_opensearch_clusters ops region (w, t) =
        (Done (), w1, t @ [Ops (ListDomainNames (Inr []))])"
  using assms by (simp add: delete_all_opensearch_clusters_def bind_def call_answer ret_def)

lemma eks_clusters_empty:
  assumes "eks_list_clusters eks w = (Inr ([], nx), w1)"
  shows "delete_all_eks_clusters eks region wait (w, t) =
        (Done (), w1, t @ [Eks (EksListClusters (Inr ([], nx)))])"
  using assms by (simp add: delete_all_eks_clusters_def bind_def call_answer ret_def)

lemma peering_connections_empty:
  assumes "describe_vpc_peering_connections ec2 w = (Inr ([], nx), w1)"
  shows "delete_all_peering_connections ec2 region (w, t) =
        (Done (), w1, t @ [Peer (DescribeVpcPeeringConnections (Inr ([], nx)))])"
  using assms by (simp add: delete_all_peering_connections_def bind_def call_answer ret_def)

lemma kinesis_streams_empty:
  assumes "list_streams kin w = (Inr ([], nx), w1)"
    and "list_delivery_streams fh w1 = (Inr ([], nx'), w2)"
  shows "delete_all_kinesis_streams kin fh region (w, t) =
        (Done (), w2, t @ [Kin (ListStreams (Inr ([], nx))), Kin (ListDeliveryStreams (Inr ([], nx')))])"
  using assms by (simp add: delete_all_kinesis_streams_def bind_def seq_def call_answer ret_def)

lemma ec2_instances_empty:
  assumes "0 < fuel" and "describe_instances ec2 None w = (Inr ([], None), w1)"
  shows "terminate_all_ec2_instances ec2 fuel region wait (w, t) =
        (Done (), w1, t @ [Ec2 (DescribeInstances None (Inr ([], None)))])"
  using assms by (simp add: terminate_all_ec2_instances_def for_pages_empty call_answer)

lemma ecs_clusters_empty:
  assumes "0 < fuel" and "ecs_list_clusters ecs None w = (Inr ([], None), w1)"
  shows "delete_all_ecs_clusters ecs fuel region wait (w, t) =
        (Done (), w1, t @ [Ecs (EcsListClusters None (Inr ([], None)))])"
  using assms by (simp add: delete_all_ecs_clusters_def for_pages_empty call_answer)

lemma main_empty:
  assumes f: "0 < fuel" and a: "answers_nothing b w"
  shows "main b fuel (w, []) = (Done (), w, empty_run)"
  using f a unfolding main_def Let_def answers_nothing_def empty_run_def
  by (simp add: seq_def bind_def auto_scaling_groups_empty ecs_clusters_empty ec2_instances_empty
      lambda_functions_empty peering_connections_empty opensearch_clusters_empty
      kinesis_streams_empty eks_clusters_empty stacks_empty)

text \<open>
  C8.  A procedure whose listing answers no resource issues no further call and returns
  normally: its whole trace is the listing call (two for the stacks, one per pass, and two for
  the streams, data and delivery), and the provider's state is the one the listing left.  For
  the procedures that paginate, the bound on the pages observed is at least one.  The driver,
  run on a provider whose nine listings answer nothing, returns normally after those listings
  and leaves the state unchanged.
\<close>

theorem empty_listing_is_noop:
  "(0 < fuel \<and> list_stacks cfn first_pass_statuses None w = (Inr ([], None), w1)
      \<and> list_stacks cfn second_pass_statuses None w1 = (Inr ([], None), w2) \<longrightarrow>
      run (delete_all_stacks cfn fuel region wait) w =
        (Done (), w2, [Cfn (ListStacks first_pass_statuses None (Inr ([], None))),
                       Cfn (ListStacks second_pass_statuses None (Inr ([], None)))]))
   \<and> (0 < fuel \<and> describe_auto_scaling_groups asg None w = (Inr ([], None), w1) \<longrightarrow>
      run (delete_all_auto_scaling_groups asg fuel region) w =
        (Done (), w1, [Asg (DescribeAutoScalingGroups None (Inr ([], None)))]))
   \<and> (0 < fuel \<and> list_functions lam None w = (Inr ([], None), w1) \<longrightarrow>
      run (delete_all_lambda_functions lam fuel region) w =
        (Done (), w1, [Lam (ListFunctions None (Inr ([], None)))]))
   \<and> (list_domain_names ops w = (Inr [], w1) \<longrightarrow>
      run (delete_all_opensearch_clusters ops region) w =
        (Done (), w1, [Ops (ListDomainNames (Inr []))]))
   \<and> (eks_list_clusters eks w = (Inr ([], nx), w1) \<longrightarrow>
      run (delete_all_eks_clusters eks region wait) w =
        (Done (), w1, [Eks (EksListClusters (Inr ([], nx)))]))
   \<and> (describe_vpc_peering_connections ec2 w = (Inr ([], nx), w1) \<longrightarrow>
      run (delete_all_peering_connections ec2 region) w =
        (Done (), w1, [Peer (DescribeVpcPeeringConnections (Inr ([], nx)))]))
   \<and> (list_streams kin w = (Inr ([], nx), w1)
      \<and> list_delivery_streams fh w1 = (Inr ([], nx'), w2) \<longrightarrow>
      run (delete_all_kinesis_streams kin fh region) w =
        (Done (), w2, [Kin (ListStreams (Inr ([], nx))), Kin (ListDeliveryStreams (Inr ([], nx')))]))
   \<and> (0 < fuel \<and> describe_instances ec2 None w = (Inr ([], None), w1) \<longrightarrow>
      run (terminate_all_ec2_instances ec2 fuel region wait) w =
        (Done (), w1, [Ec2 (DescribeInstances None (Inr ([], None)))]))
   \<and> (0 < fuel \<and> ecs_list_clusters ecs None w = (Inr ([], None), w1) \<longrightarrow>
      run (delete_all_ecs_clusters ecs fuel region wait) w =
        (Done (), w1, [Ecs (EcsListClusters None (Inr ([], None)))]))
   \<and> (0 < fuel \<and> answers_nothing b w \<longrightarrow> run (main b fuel) w = (Done (), w, empty_run))"
  by (simp add: run_def stacks_empty auto_scaling_groups_empty lambda_functions_empty
      opensearch_clusters_empty eks_clusters_empty peering_connections_empty
      kinesis_streams_empty ec2_instances_empty ecs_clusters_empty main_empty)

lemmas test_listing_defs = test_boto3_def test_cloudformation_def test_list_stacks_def
  test_autoscaling_def test_lambda_def test_opensearch_def test_kinesis_def test_firehose_def
  test_eks_def test_ec2_def test_ecs_def page_from_def token_of_def empty_region_def

text \<open>The reference provider on the empty region.\<close>

theorem empty_listing_is_noop_witness:
  "run (delete_all_stacks test_cloudformation 1 ''r'' False) empty_region =
     (Done (), empty_region, [Cfn (ListStacks first_pass_statuses None (Inr ([], None))),
                              Cfn (ListStacks second_pass_statuses None (Inr ([], None)))])
   \<and> run (delete_all_auto_scaling_groups test_autoscaling 1 ''r'') empty_region =
     (Done (), empty_region, [Asg (DescribeAutoScalingGroups None (Inr ([], None)))])
   \<and> run (delete_all_lambda_functions test_lambda 1 ''r'') empty_region =
     (Done (), empty_region, [Lam (ListFunctions None (Inr ([], None)))])
   \<and> run (delete_all_opensearch_clusters test_opensearch ''r'') empty_region =
     (Done (), empty_region, [Ops (ListDomainNames (Inr []))])
   \<and> run (delete_all_eks_clusters test_eks ''r'' True) empty_region =
     (Done (), empty_region, [Eks (EksListClusters (Inr ([], None)))])
   \<and> run (delete_all_peering_connections test_ec2 ''r'') empty_region =
     (Done (), empty_region, [Peer (DescribeVpcPeeringConnections (Inr ([], None)))])
   \<and> run (delete_all_kinesis_streams test_kinesis test_firehose ''r'') empty_region =
     (Done (), empty_region, [Kin (ListStreams (Inr ([], None))), Kin (ListDeliveryStreams (Inr ([], None)))])
   \<and> run (terminate_all_ec2_instances test_ec2 1 ''r'' True) empty_region =
     (Done (), empty_region, [Ec2 (DescribeInstances None (Inr ([], None)))])
   \<and> run (delete_all_ecs_clusters test_ecs 1 ''r'' True) empty_region =
     (Done (), empty_region, [Ecs (EcsListClusters None (Inr ([], None)))])
   \<and> run (main test_boto3 1) empty_region = (Done (), empty_region, empty_run)"
  using empty_listing_is_noop[where fuel = 1 and cfn = test_cloudformation and w = empty_region
      and ?w1.0 = empty_region and ?w2.0 = empty_region and region = "''r''" and asg = test_autoscaling
      and lam = test_lambda and ops = test_opensearch and eks = test_eks and nx = None
      and ?ec2.0 = test_ec2 and kin = test_kinesis and fh = test_firehose and nx' = None
      and ecs = test_ecs and b = test_boto3]
  by (simp add: answers_nothing_def test_listing_defs)

section \<open>Listings read without their token\<close>

text \<open>
  C7.  The procedures for EKS, network peering and the streams list with one call and read the
  items of the answer only.  On a region that answers one item per page and holds two
  clusters, two peering connections, two data streams and two delivery streams, each of these
  procedures returns normally after deleting the first resource; the second one is still there
  in the final state, and no call names it.  With one cluster of two node groups, the first
  node group is deleted and awaited, the cluster's delete call is refused because the second
  node group is still attached, and the procedure ends with that fault.
\<close>

theorem first_page_only:
  "run (delete_all_eks_clusters test_eks ''r'' False) two_pages =
     (Done (), two_pages\<lparr>eks_clusters := [(''k2'', [])]\<rparr>,
      [Eks (EksListClusters (Inr ([''k1''], Some ''I''))),
       Eks (ListNodegroups ''k1'' (Inr ([], None))),
       Print ''Deleting EKS cluster: k1 in region r'',
       Eks (EksDeleteCluster ''k1'' (Inr ()))])
   \<and> run (delete_all_eks_clusters test_eks ''r'' False) two_nodegroup_pages =
     (Raised (ClientError ''ResourceInUseException: Cluster has nodegroups attached''),
      two_nodegroup_pages\<lparr>eks_clusters := [(''k1'', [''ng-b''])]\<rparr>,
      [Eks (EksListClusters (Inr ([''k1''], None))),
       Eks (ListNodegroups ''k1'' (Inr ([''ng-a''], Some ''I''))),
       Print ''Deleting node group: ng-a in cluster: k1'',
       Eks (DeleteNodegroup ''k1'' ''ng-a'' (Inr ())),
       Eks (WaitNodegroupDeleted ''k1'' ''ng-a'' (Inr ())),
       Print ''Deleting EKS cluster: k1 in region r'',
       Eks (EksDeleteCluster ''k1'' (Inl (ClientError ''ResourceInUseException: Cluster has nodegroups attached'')))])
   \<and> run (delete_all_peering_connections test_ec2 ''r'') two_pages =
     (Done (), two_pages\<lparr>peering_connections := [''pcx-2'']\<rparr>,
      [Peer (DescribeVpcPeeringConnections (Inr ([''pcx-1''], Some ''I''))),
       Print ''Deleting VPC peering connection: pcx-1 in region r'',
       Peer (DescribeRouteTables ''pcx-1'' (Inr ([], None))),
       Peer (DeleteVpcPeeringConnection ''pcx-1'' (Inr ())),
       Print ''Deleted VPC peering connection: pcx-1 in region r''])
   \<and> run (delete_all_kinesis_streams test_kinesis test_firehose ''r'') two_pages =
     (Done (), two_pages\<lparr>streams := [''s2''], delivery_streams := [''d2'']\<rparr>,
      [Kin (ListStreams (Inr ([''s1''], Some ''I''))),
       Print ''Deleting Kinesis data stream: s1 in region r'',
       Kin (DeleteStream ''s1'' True (Inr ())),
       Kin (ListDeliveryStreams (Inr ([''d1''], Some ''I''))),
       Print ''Deleting Kinesis Firehose delivery stream: d1 in region r'',
       Kin (DeleteDeliveryStream ''d1'' (Inr ()))])"
proof (intro conjI)
  show "run (delete_all_eks_clusters test_eks ''r'' False) two_pages =
     (Done (), two_pages\<lparr>eks_clusters := [(''k2'', [])]\<rparr>,
      [Eks (EksListClusters (Inr ([''k1''], Some ''I''))),
       Eks (ListNodegroups ''k1'' (Inr ([], None))),
       Print ''Deleting EKS cluster: k1 in region r'',
       Eks (EksDeleteCluster ''k1'' (Inr ()))])"
    by (simp add: run_def eks_defs prog_defs test_eks_defs two_pages_def)
  show "run (delete_all_eks_clusters test_eks ''r'' False) two_nodegroup_pages =
     (Raised (ClientError ''ResourceInUseException: Cluster has nodegroups attached''),
      two_nodegroup_pages\<lparr>eks_clusters := [(''k1'', [''ng-b''])]\<rparr>,
      [Eks (EksListClusters (Inr ([''k1''], None))),
       Eks (ListNodegroups ''k1'' (Inr ([''ng-a''], Some ''I''))),
       Print ''Deleting node group: ng-a in cluster: k1'',
       Eks (DeleteNodegroup ''k1'' ''ng-a'' (Inr ())),
       Eks (WaitNodegroupDeleted ''k1'' ''ng-a'' (Inr ())),
       Print ''Deleting EKS cluster: k1 in region r'',
       Eks (EksDeleteCluster ''k1'' (Inl (ClientError ''ResourceInUseException: Cluster has nodegroups attached'')))])"
    by (simp add: run_def eks_defs prog_defs test_eks_defs two_nodegroup_pages_def)
  show "run (delete_all_peering_connections test_ec2 ''r'') two_pages =
     (Done (), two_pages\<lparr>peering_connections := [''pcx-2'']\<rparr>,
      [Peer (DescribeVpcPeeringConnections (Inr ([''pcx-1''], Some ''I''))),
       Print ''Deleting VPC peering connection: pcx-1 in region r'',
       Peer (DescribeRouteTables ''pcx-1'' (Inr ([], None))),
       Peer (DeleteVpcPeeringConnection ''pcx-1'' (Inr ())),
       Print ''Deleted VPC peering connection: pcx-1 in region r''])"
    by (simp add: run_def delete_all_peering_connections_def delete_peering_connection_def
        prog_defs test_ec2_defs two_pages_def)
  show "run (delete_all_kinesis_streams test_kinesis test_firehose ''r'') two_pages =
     (Done (), two_pages\<lparr>streams := [''s2''], delivery_streams := [''d2'']\<rparr>,
      [Kin (ListStreams (Inr ([''s1''], Some ''I''))),
       Print ''Deleting Kinesis data stream: s1 in region r'',
       Kin (DeleteStream ''s1'' True (Inr ())),
       Kin (ListDeliveryStreams (Inr ([''d1''], Some ''I''))),
       Print ''Deleting Kinesis Firehose delivery stream: d1 in region r'',
       Kin (DeleteDeliveryStream ''d1'' (Inr ()))])"
    by (simp add: run_def delete_all_kinesis_streams_def prog_defs test_kinesis_def test_firehose_def
        page_from_def token_of_def empty_region_def two_pages_def)
qed

section \<open>Container clusters: services and tasks before the cluster\<close>

lemma service_ok_mono: "service_ok wait t c s \<Longrightarrow> service_ok wait (t @ es) c s"
  by (auto simp: service_ok_def service_requested_def service_awaited_def)

lemma task_ok_mono: "task_ok wait t c x \<Longrightarrow> task_ok wait (t @ es) c x"
  by (auto simp: task_ok_def task_requested_def task_awaited_def)

lemma service_listed_snoc:
  "service_listed (t @ [e]) c s \<longleftrightarrow> service_listed t c s
     \<or> (\<exists>tok ss nx. e = Ecs (ListServices c tok (Inr (ss, nx))) \<and> s \<in> set ss)"
  by (auto simp: service_listed_def)

lemma task_listed_snoc:
  "task_listed (t @ [e]) c x \<longleftrightarrow> task_listed t c x
     \<or> (\<exists>tok xs nx. e = Ecs (ListTasks c tok (Inr (xs, nx))) \<and> x \<in> set xs)"
  by (auto simp: task_listed_def)

lemma ecs_state_inv: "ecs_state wait ps pt t \<Longrightarrow> ecs_inv wait t"
  by (simp add: ecs_state_def)

lemma ecs_inv_snoc:
  assumes "ecs_inv wait t" and "\<And>c r. e \<noteq> Ecs (EcsDeleteCluster c r)"
  shows "ecs_inv wait (t @ [e])"
  using assms by (simp add: ecs_inv_def cluster_delete_guarded_def)

lemma ecs_state_snoc:
  assumes s: "ecs_state wait ps pt t"
    and d: "\<And>c r. e \<noteq> Ecs (EcsDeleteCluster c r)"
    and ls: "\<And>c tok ss nx. e \<noteq> Ecs (ListServices c tok (Inr (ss, nx)))"
    and lt: "\<And>c tok xs nx. e \<noteq> Ecs (ListTasks c tok (Inr (xs, nx)))"
  shows "ecs_state wait ps pt (t @ [e])"
proof -
  have sl: "\<And>c s. service_listed (t @ [e]) c s \<Longrightarrow> service_listed t c s"
    by (simp add: service_listed_snoc ls)
  have tl: "\<And>c x. task_listed (t @ [e]) c x \<Longrightarrow> task_listed t c x"
    by (simp add: task_listed_snoc lt)
  from s have i: "ecs_inv wait t"
    and a: "\<And>c s. service_listed t c s \<Longrightarrow> service_ok wait t c s \<or> (c, s) \<in> ps"
    and b: "\<And>c x. task_listed t c x \<Longrightarrow> task_ok wait t c x \<or> (c, x) \<in> pt"
    by (auto simp: ecs_state_def)
  show ?thesis unfolding ecs_state_def
  proof (intro conjI allI impI)
    show "ecs_inv wait (t @ [e])" by (rule ecs_inv_snoc[OF i d])
  next
    fix c s assume "service_listed (t @ [e]) c s"
    from a[OF sl[OF this]] show "service_ok wait (t @ [e]) c s \<or> (c, s) \<in> ps"
      by (auto intro: service_ok_mono)
  next
    fix c x assume "task_listed (t @ [e]) c x"
    from b[OF tl[OF this]] show "task_ok wait (t @ [e]) c x \<or> (c, x) \<in> pt"
      by (auto intro: task_ok_mono)
  qed
qed

lemma ecs_state_services_listed:
  assumes s: "ecs_state wait {} {} t"
  shows "ecs_state wait ({c} \<times> set ss) {} (t @ [Ecs (ListServices c tok (Inr (ss, nx)))])"
proof -
  let ?e = "Ecs (ListServices c tok (Inr (ss, nx)))"
  from s have i: "ecs_inv wait t"
    and a: "\<And>c s. service_listed t c s \<Longrightarrow> service_ok wait t c s"
    and b: "\<And>c x. task_listed t c x \<Longrightarrow> task_ok wait t c x"
    by (auto simp: ecs_state_def)
  have sl: "\<And>c' s. service_listed (t @ [?e]) c' s \<Longrightarrow> service_listed t c' s \<or> (c' = c \<and> s \<in> set ss)"
    by (auto simp: service_listed_snoc)
  have tl: "\<And>c' x. task_listed (t @ [?e]) c' x \<Longrightarrow> task_listed t c' x"
    by (auto simp: task_listed_snoc)
  show ?thesis unfolding ecs_state_def
  proof (intro conjI allI impI)
    show "ecs_inv wait (t @ [?e])" by (rule ecs_inv_snoc[OF i]) simp
  next
    fix c' s assume "service_listed (t @ [?e]) c' s"
    from sl[OF this] show "service_ok wait (t @ [?e]) c' s \<or> (c', s) \<in> {c} \<times> set ss"
      by (auto dest: a intro: service_ok_mono)
  next
    fix c' x assume "task_listed (t @ [?e]) c' x"
    from b[OF tl[OF this]] show "task_ok wait (t @ [?e]) c' x \<or> (c', x) \<in> {}"
      by (auto intro: task_ok_mono)
  qed
qed

lemma ecs_state_tasks_listed:
  assumes s: "ecs_state wait {} {} t"
  shows "ecs_state wait {} ({c} \<times> set xs) (t @ [Ecs (ListTasks c tok (Inr (xs, nx)))])"
proof -
  let ?e = "Ecs (ListTasks c tok (Inr (xs, nx)))"
  from s have i: "ecs_inv wait t"
    and a: "\<And>c s. service_listed t c s \<Longrightarrow> service_ok wait t c s"
    and b: "\<And>c x. task_listed t c x \<Longrightarrow> task_ok wait t c x"
    by (auto simp: ecs_state_def)
  have sl: "\<And>c' s. service_listed (t @ [?e]) c' s \<Longrightarrow> service_listed t c' s"
    by (auto simp: service_listed_snoc)
  have tl: "\<And>c' x. task_listed (t @ [?e]) c' x \<Longrightarrow> task_listed t c' x \<or> (c' = c \<and> x \<in> set xs)"
    by (auto simp: task_listed_snoc)
  show ?thesis unfolding ecs_state_def
  proof (intro conjI allI impI)
    show "ecs_inv wait (t @ [?e])" by (rule ecs_inv_snoc[OF i]) simp
  next
    fix c' s assume "service_listed (t @ [?e]) c' s"
    from a[OF sl[OF this]] show "service_ok wait (t @ [?e]) c' s \<or> (c', s) \<in> {}"
      by (auto intro: service_ok_mono)
  next
    fix c' x assume "task_listed (t @ [?e]) c' x"
    from tl[OF this] show "task_ok wait (t @ [?e]) c' x \<or> (c', x) \<in> {c} \<times> set xs"
      by (auto dest: b intro: task_ok_mono)
  qed
qed

lemma ecs_state_service_done:
  assumes "ecs_state wait ({c} \<times> (set ss - set ys)) {} t" and "service_ok wait t c s"
  shows "ecs_state wait ({c} \<times> (set ss - set (ys @ [s]))) {} t"
  using assms unfolding ecs_state_def by auto

lemma ecs_state_task_done:
  assumes "ecs_state wait {} ({c} \<times> (set xs - set ys)) t" and "task_ok wait t c x"
  shows "ecs_state wait {} ({c} \<times> (set xs - set (ys @ [x]))) t"
  using assms unfolding ecs_state_def by auto

lemma ecs_state_cluster_delete:
  assumes s: "ecs_state wait {} {} t"
  shows "ecs_state wait {} {} (t @ [Ecs (EcsDeleteCluster c r)])"
proof -
  let ?e = "Ecs (EcsDeleteCluster c r)"
  from s have i: "ecs_inv wait t"
    and a: "\<And>c s. service_listed t c s \<Longrightarrow> service_ok wait t c s"
    and b: "\<And>c x. task_listed t c x \<Longrightarrow> task_ok wait t c x"
    by (auto simp: ecs_state_def)
  have sl: "\<And>c' s. service_listed (t @ [?e]) c' s \<Longrightarrow> service_listed t c' s"
    by (auto simp: service_listed_snoc)
  have tl: "\<And>c' x. task_listed (t @ [?e]) c' x \<Longrightarrow> task_listed t c' x"
    by (auto simp: task_listed_snoc)
  have "cluster_prepared wait t c" using a b by (simp add: cluster_prepared_def)
  with i have "ecs_inv wait (t @ [?e])"
    by (simp add: ecs_inv_def cluster_delete_guarded_def)
  then show ?thesis unfolding ecs_state_def
    by (auto dest!: sl tl dest: a b intro: service_ok_mono task_ok_mono)
qed


lemma ecs_state_append:
  assumes "ecs_state wait ps pt t" and "\<forall>e \<in> set es. ecs_quiet e"
  shows "ecs_state wait ps pt (t @ es)"
  using assms(2)
proof (induction es rule: rev_induct)
  case Nil
  show ?case using assms(1) by simp
next
  case (snoc e es)
  then have "ecs_state wait ps pt (t @ es)" and q: "ecs_quiet e" by simp_all
  then have "ecs_state wait ps pt ((t @ es) @ [e])"
    by (intro ecs_state_snoc) (auto simp: ecs_quiet_def)
  then show ?case by simp
qed

lemma ecs_inv_append:
  assumes "ecs_inv wait t" and "\<forall>e \<in> set es. \<forall>c r. e \<noteq> Ecs (EcsDeleteCluster c r)"
  shows "ecs_inv wait (t @ es)"
  using assms(2)
proof (induction es rule: rev_induct)
  case Nil
  show ?case using assms(1) by simp
next
  case (snoc e es)
  then have "ecs_inv wait (t @ es)" and q: "\<And>c r. e \<noteq> Ecs (EcsDeleteCluster c r)" by simp_all
  then have "ecs_inv wait ((t @ es) @ [e])"
    by (intro ecs_inv_snoc) auto
  then show ?case by simp
qed

lemma delete_ecs_service_steady:
  "hoare (ecs_state wait ps pt) (delete_ecs_service client region wait c s)
     (\<lambda>_ t. ecs_state wait ps pt t \<and> service_ok wait t c s) (ecs_state wait ps pt)"
  unfolding hoare_def delete_ecs_service_def prog_defs
  by (auto split: prod.splits sum.splits
      simp: service_ok_def service_requested_def service_awaited_def ecs_quiet_def
      intro!: ecs_state_append)

lemma delete_ecs_service_state:
  "hoare (ecs_state wait ps pt) (delete_ecs_service client region wait c s)
     (\<lambda>_ t. ecs_state wait ps pt t \<and> service_ok wait t c s) (ecs_inv wait)"
proof (rule hoare_weaken[OF delete_ecs_service_steady])
  fix t assume "ecs_state wait ps pt t" then show "ecs_state wait ps pt t" .
next
  fix u :: unit and t assume "ecs_state wait ps pt t \<and> service_ok wait t c s"
  then show "ecs_state wait ps pt t \<and> service_ok wait t c s" .
next
  fix t assume "ecs_state wait ps pt t" then show "ecs_inv wait t" by (rule ecs_state_inv)
qed

lemma stop_ecs_task_steady:
  "hoare (ecs_state wait ps pt) (stop_ecs_task client region wait c x)
     (\<lambda>_ t. ecs_state wait ps pt t \<and> task_ok wait t c x) (ecs_state wait ps pt)"
  unfolding hoare_def stop_ecs_task_def prog_defs
  by (auto split: prod.splits sum.splits
      simp: task_ok_def task_requested_def task_awaited_def ecs_quiet_def
      intro!: ecs_state_append)

lemma stop_ecs_task_state:
  "hoare (ecs_state wait ps pt) (stop_ecs_task client region wait c x)
     (\<lambda>_ t. ecs_state wait ps pt t \<and> task_ok wait t c x) (ecs_inv wait)"
proof (rule hoare_weaken[OF stop_ecs_task_steady])
  fix t assume "ecs_state wait ps pt t" then show "ecs_state wait ps pt t" .
next
  fix u :: unit and t assume "ecs_state wait ps pt t \<and> task_ok wait t c x"
  then show "ecs_state wait ps pt t \<and> task_ok wait t c x" .
next
  fix t assume "ecs_state wait ps pt t" then show "ecs_inv wait t" by (rule ecs_state_inv)
qed


lemma ecs_services_page:
  "hoare (ecs_state wait ({c} \<times> set ss) {})
     (for_each ss (delete_ecs_service client region wait c))
     (\<lambda>_. ecs_state wait {} {}) (ecs_inv wait)"
proof -
  have "hoare (ecs_state wait ({c} \<times> (set ss - set [])) {})
     (for_each ss (delete_ecs_service client region wait c))
     (\<lambda>_. ecs_state wait ({c} \<times> (set ss - set ss)) {}) (ecs_inv wait)"
  proof (rule hoare_for_each_prefix[where I = "\<lambda>ys. ecs_state wait ({c} \<times> (set ss - set ys)) {}"])
    fix ys s zs assume "ss = ys @ s # zs"
    show "hoare (ecs_state wait ({c} \<times> (set ss - set ys)) {})
            (delete_ecs_service client region wait c s)
            (\<lambda>_. ecs_state wait ({c} \<times> (set ss - set (ys @ [s]))) {}) (ecs_inv wait)"
    proof (rule hoare_weaken[OF delete_ecs_service_state[of wait "{c} \<times> (set ss - set ys)" "{}" client region c s]])
      fix t assume "ecs_state wait ({c} \<times> (set ss - set ys)) {} t"
      then show "ecs_state wait ({c} \<times> (set ss - set ys)) {} t" .
    next
      fix u :: unit and t
      assume "ecs_state wait ({c} \<times> (set ss - set ys)) {} t \<and> service_ok wait t c s"
      then show "ecs_state wait ({c} \<times> (set ss - set (ys @ [s]))) {} t"
        by (intro ecs_state_service_done) simp_all
    next
      fix t assume "ecs_inv wait t" then show "ecs_inv wait t" .
    qed
  qed
  then show ?thesis by simp
qed

lemma ecs_tasks_page:
  "hoare (ecs_state wait {} ({c} \<times> set xs))
     (for_each xs (stop_ecs_task client region wait c))
     (\<lambda>_. ecs_state wait {} {}) (ecs_inv wait)"
proof -
  have "hoare (ecs_state wait {} ({c} \<times> (set xs - set [])))
     (for_each xs (stop_ecs_task client region wait c))
     (\<lambda>_. ecs_state wait {} ({c} \<times> (set xs - set xs))) (ecs_inv wait)"
  proof (rule hoare_for_each_prefix[where I = "\<lambda>ys. ecs_state wait {} ({c} \<times> (set xs - set ys))"])
    fix ys x zs assume "xs = ys @ x # zs"
    show "hoare (ecs_state wait {} ({c} \<times> (set xs - set ys)))
            (stop_ecs_task client region wait c x)
            (\<lambda>_. ecs_state wait {} ({c} \<times> (set xs - set (ys @ [x])))) (ecs_inv wait)"
    proof (rule hoare_weaken[OF stop_ecs_task_state[of wait "{}" "{c} \<times> (set xs - set ys)" client region c x]])
      fix t assume "ecs_state wait {} ({c} \<times> (set xs - set ys)) t"
      then show "ecs_state wait {} ({c} \<times> (set xs - set ys)) t" .
    next
      fix u :: unit and t
      assume "ecs_state wait {} ({c} \<times> (set xs - set ys)) t \<and> task_ok wait t c x"
      then show "ecs_state wait {} ({c} \<times> (set xs - set (ys @ [x]))) t"
        by (intro ecs_state_task_done) simp_all
    next
      fix t assume "ecs_inv wait t" then show "ecs_inv wait t" .
    qed
  qed
  then show ?thesis by simp
qed

lemma ecs_services_loop:
  "hoare (ecs_state wait {} {})
     (for_pages fuel
        (\<lambda>tok. call (\<lambda>r. Ecs (ListServices c tok r)) (list_services client c tok))
        (\<lambda>service_arns. for_each service_arns (delete_ecs_service client region wait c))
        None)
     (\<lambda>_. ecs_state wait {} {}) (ecs_inv wait)"
proof (rule hoare_for_pages[where J = "\<lambda>p. ecs_state wait ({c} \<times> set (fst p)) {}"])
  fix tok
  show "hoare (ecs_state wait {} {})
          (call (\<lambda>r. Ecs (ListServices c tok r)) (list_services client c tok))
          (\<lambda>p. ecs_state wait ({c} \<times> set (fst p)) {}) (ecs_inv wait)"
  proof (rule hoare_call)
    fix t and x :: "string page" assume "ecs_state wait {} {} t"
    from ecs_state_services_listed[OF this, of c "fst x" tok "snd x"]
    show "ecs_state wait ({c} \<times> set (fst x)) {} (t @ [Ecs (ListServices c tok (Inr x))])" by simp
  next
    fix t f assume "ecs_state wait {} {} t"
    then show "ecs_inv wait (t @ [Ecs (ListServices c tok (Inl f))])"
      by (intro ecs_inv_snoc ecs_state_inv) auto
  qed
next
  fix items :: "string list" and nx :: "token option"
  show "hoare (ecs_state wait ({c} \<times> set (fst (items, nx))) {})
          (for_each items (delete_ecs_service client region wait c))
          (\<lambda>_. ecs_state wait {} {}) (ecs_inv wait)"
    using ecs_services_page[of wait c items client region] by simp
next
  fix t assume "ecs_state wait {} {} t" then show "ecs_inv wait t" by (rule ecs_state_inv)
qed

lemma ecs_tasks_loop:
  "hoare (ecs_state wait {} {})
     (for_pages fuel
        (\<lambda>tok. call (\<lambda>r. Ecs (ListTasks c tok r)) (list_tasks client c tok))
        (\<lambda>task_arns. for_each task_arns (stop_ecs_task client region wait c))
        None)
     (\<lambda>_. ecs_state wait {} {}) (ecs_inv wait)"
proof (rule hoare_for_pages[where J = "\<lambda>p. ecs_state wait {} ({c} \<times> set (fst p))"])
  fix tok
  show "hoare (ecs_state wait {} {})
          (call (\<lambda>r. Ecs (ListTasks c tok r)) (list_tasks client c tok))
          (\<lambda>p. ecs_state wait {} ({c} \<times> set (fst p))) (ecs_inv wait)"
  proof (rule hoare_call)
    fix t and x :: "string page" assume "ecs_state wait {} {} t"
    from ecs_state_tasks_listed[OF this, of c "fst x" tok "snd x"]
    show "ecs_state wait {} ({c} \<times> set (fst x)) (t @ [Ecs (ListTasks c tok (Inr x))])" by simp
  next
    fix t f assume "ecs_state wait {} {} t"
    then show "ecs_inv wait (t @ [Ecs (ListTasks c tok (Inl f))])"
      by (intro ecs_inv_snoc ecs_state_inv) auto
  qed
next
  fix items :: "string list" and nx :: "token option"
  show "hoare (ecs_state wait {} ({c} \<times> set (fst (items, nx))))
          (for_each items (stop_ecs_task client region wait c))
          (\<lambda>_. ecs_state wait {} {}) (ecs_inv wait)"
    using ecs_tasks_page[of wait c items client region] by simp
next
  fix t assume "ecs_state wait {} {} t" then show "ecs_inv wait t" by (rule ecs_state_inv)
qed

lemma ecs_cluster_tail:
  "hoare (ecs_state wait {} {})
     (seq (print (''Deleting ECS cluster: '' @ c @ '' in region '' @ region))
     (seq (call (\<lambda>r. Ecs (EcsDeleteCluster c r)) (ecs_delete_cluster client c))
          (if wait then
             seq (call (\<lambda>r. Ecs (WaitEcsClusterDeleted [c] r))
                    (wait_ecs_cluster_deleted client [c]))
                 (print (''Deleted ECS cluster: '' @ c @ '' in region '' @ region))
           else ret ())))
     (\<lambda>_. ecs_state wait {} {}) (ecs_state wait {} {})"
proof -
  have q: "\<And>t e. ecs_state wait {} {} t \<Longrightarrow> ecs_quiet e \<Longrightarrow> ecs_state wait {} {} (t @ [e])"
    by (rule ecs_state_append) simp_all
  have waiting: "hoare (ecs_state wait {} {})
      (seq (call (\<lambda>r. Ecs (WaitEcsClusterDeleted [c] r)) (wait_ecs_cluster_deleted client [c]))
           (print (''Deleted ECS cluster: '' @ c @ '' in region '' @ region)))
      (\<lambda>_. ecs_state wait {} {}) (ecs_state wait {} {})"
    apply (rule hoare_seq[where R = "ecs_state wait {} {}"])
     apply (rule hoare_call; erule q; simp add: ecs_quiet_def)
    apply (rule hoare_print, erule q, simp add: ecs_quiet_def)
    done
  have last: "hoare (ecs_state wait {} {})
      (if wait then
         seq (call (\<lambda>r. Ecs (WaitEcsClusterDeleted [c] r)) (wait_ecs_cluster_deleted client [c]))
             (print (''Deleted ECS cluster: '' @ c @ '' in region '' @ region))
       else ret ())
      (\<lambda>_. ecs_state wait {} {}) (ecs_state wait {} {})"
  proof (cases wait)
    case w: True
    from waiting show ?thesis by (simp only: if_P[OF w])
  next
    case w: False
    have "hoare (ecs_state wait {} {}) (ret ()) (\<lambda>_. ecs_state wait {} {}) (ecs_state wait {} {})"
      by (rule hoare_ret)
    then show ?thesis by (simp only: if_not_P[OF w])
  qed
  show ?thesis
    apply (rule hoare_seq[where R = "ecs_state wait {} {}"])
     apply (rule hoare_print, erule q, simp add: ecs_quiet_def)
    apply (rule hoare_seq[where R = "ecs_state wait {} {}"])
     apply (rule hoare_call; erule ecs_state_cluster_delete)
    apply (rule last)
    done
qed

lemma delete_ecs_cluster_state:
  "hoare (ecs_state wait {} {}) (delete_ecs_cluster client fuel region wait c)
     (\<lambda>_. ecs_state wait {} {}) (ecs_inv wait)"
  unfolding delete_ecs_cluster_def
  apply (rule hoare_seq[OF ecs_services_loop])
  apply (rule hoare_seq[OF ecs_tasks_loop])
  apply (rule hoare_weaken[OF ecs_cluster_tail])
    apply (assumption | erule ecs_state_inv)+
  done

lemma delete_all_ecs_clusters_state:
  "hoare (ecs_state wait {} {}) (delete_all_ecs_clusters client fuel region wait)
     (\<lambda>_. ecs_state wait {} {}) (ecs_inv wait)"
  unfolding delete_all_ecs_clusters_def
proof (rule hoare_for_pages[where J = "\<lambda>_. ecs_state wait {} {}"])
  fix tok
  show "hoare (ecs_state wait {} {})
          (call (\<lambda>r. Ecs (EcsListClusters tok r)) (ecs_list_clusters client tok))
          (\<lambda>_. ecs_state wait {} {}) (ecs_inv wait)"
  proof (rule hoare_call)
    fix t and x :: "string page" assume "ecs_state wait {} {} t"
    then show "ecs_state wait {} {} (t @ [Ecs (EcsListClusters tok (Inr x))])"
      by (rule ecs_state_snoc) simp_all
  next
    fix t f assume "ecs_state wait {} {} t"
    then show "ecs_inv wait (t @ [Ecs (EcsListClusters tok (Inl f))])"
      by (intro ecs_inv_snoc ecs_state_inv) auto
  qed
next
  fix items :: "string list" and nx :: "token option"
  show "hoare (ecs_state wait {} {})
          (for_each items (delete_ecs_cluster client fuel region wait))
          (\<lambda>_. ecs_state wait {} {}) (ecs_inv wait)"
    by (rule hoare_for_each) (rule delete_ecs_cluster_state)
next
  fix t assume "ecs_state wait {} {} t" then show "ecs_inv wait t" by (rule ecs_state_inv)
qed

lemma delete_all_ecs_clusters_inv:
  "ecs_inv wait (trace_of (delete_all_ecs_clusters client fuel region wait) w)"
proof (rule hoare_run[OF delete_all_ecs_clusters_state])
  show "ecs_state wait {} {} []"
    by (simp add: ecs_state_def ecs_inv_def service_listed_def task_listed_def)
next
  fix x :: unit and t assume "ecs_state wait {} {} t" then show "ecs_inv wait t" by (rule ecs_state_inv)
next
  fix t assume "ecs_inv wait t" then show "ecs_inv wait t" .
qed


lemma delete_all_ecs_clusters_unawaited:
  "emits (\<lambda>e. \<not> ecs_waiter e) (delete_all_ecs_clusters client fuel region False)"
  unfolding delete_all_ecs_clusters_def delete_ecs_cluster_def delete_ecs_service_def
    stop_ecs_task_def if_False
  by (intro emits_intros) (simp_all add: ecs_waiter_def)

text \<open>
  C3.  In any run of the container cluster teardown over any provider, and for both values of
  \<open>wait\<close>: when the \<^verbatim>\<open>delete_cluster\<close> call for a cluster is issued, every service
  listed for that cluster before has had its \<^verbatim>\<open>update_service\<close> (desired count 0) and
  \<^verbatim>\<open>delete_service\<close> (forced) calls returned, and every task listed for it has had its
  \<^verbatim>\<open>stop_task\<close> call returned; when \<open>wait\<close> holds, the \<^verbatim>\<open>services_inactive\<close>
  waiter for each such service and the \<^verbatim>\<open>tasks_stopped\<close> waiter for each such task
  have returned as well.  When \<open>wait\<close> does not hold, no waiter is called at all, for no
  service, task or cluster: the requests are all that precedes the \<^verbatim>\<open>delete_cluster\<close>
  call, although the function's documentation says that it ensures the services and tasks
  are deleted before the cluster is, and gives \<open>wait\<close> as the switch of the cluster waiter.
\<close>

theorem ecs_cluster_delete_after_requests:
  "(let t = trace_of (delete_all_ecs_clusters client fuel region wait) w in
     (\<forall>i<length t. \<forall>c r. t ! i = Ecs (EcsDeleteCluster c r) \<longrightarrow>
       (\<forall>s. service_listed (take i t) c s \<longrightarrow>
          Ecs (UpdateService c s 0 (Inr ())) \<in> set (take i t)
        \<and> Ecs (DeleteService c s True (Inr ())) \<in> set (take i t)
        \<and> (wait \<longrightarrow> Ecs (WaitServicesInactive c [s] (Inr ())) \<in> set (take i t)))
     \<and> (\<forall>x. task_listed (take i t) c x \<longrightarrow>
          Ecs (StopTask c x (Inr ())) \<in> set (take i t)
        \<and> (wait \<longrightarrow> Ecs (WaitTasksStopped c [x] (Inr ())) \<in> set (take i t))))
   \<and> (\<not> wait \<longrightarrow>
         (\<forall>c ss r. Ecs (WaitServicesInactive c ss r) \<notin> set t)
       \<and> (\<forall>c xs r. Ecs (WaitTasksStopped c xs r) \<notin> set t)
       \<and> (\<forall>cs r. Ecs (WaitEcsClusterDeleted cs r) \<notin> set t)))"
proof -
  define t where "t = trace_of (delete_all_ecs_clusters client fuel region wait) w"
  have inv: "each_prefixed (cluster_delete_guarded wait) t"
    using delete_all_ecs_clusters_inv[of wait client fuel region w] by (simp add: t_def ecs_inv_def)
  have first: "\<forall>i<length t. \<forall>c r. t ! i = Ecs (EcsDeleteCluster c r) \<longrightarrow>
       (\<forall>s. service_listed (take i t) c s \<longrightarrow>
          Ecs (UpdateService c s 0 (Inr ())) \<in> set (take i t)
        \<and> Ecs (DeleteService c s True (Inr ())) \<in> set (take i t)
        \<and> (wait \<longrightarrow> Ecs (WaitServicesInactive c [s] (Inr ())) \<in> set (take i t)))
     \<and> (\<forall>x. task_listed (take i t) c x \<longrightarrow>
          Ecs (StopTask c x (Inr ())) \<in> set (take i t)
        \<and> (wait \<longrightarrow> Ecs (WaitTasksStopped c [x] (Inr ())) \<in> set (take i t)))"
  proof (intro allI impI)
    fix i c r assume i: "i < length t" and d: "t ! i = Ecs (EcsDeleteCluster c r)"
    from each_prefixedD[OF inv i] d have "cluster_prepared wait (take i t) c"
      by (simp add: cluster_delete_guarded_def)
    then show "(\<forall>s. service_listed (take i t) c s \<longrightarrow>
          Ecs (UpdateService c s 0 (Inr ())) \<in> set (take i t)
        \<and> Ecs (DeleteService c s True (Inr ())) \<in> set (take i t)
        \<and> (wait \<longrightarrow> Ecs (WaitServicesInactive c [s] (Inr ())) \<in> set (take i t)))
     \<and> (\<forall>x. task_listed (take i t) c x \<longrightarrow>
          Ecs (StopTask c x (Inr ())) \<in> set (take i t)
        \<and> (wait \<longrightarrow> Ecs (WaitTasksStopped c [x] (Inr ())) \<in> set (take i t)))"
      unfolding cluster_prepared_def service_ok_def task_ok_def service_requested_def
        service_awaited_def task_requested_def task_awaited_def
      by blast
  qed
  have second: "\<not> wait \<longrightarrow>
         (\<forall>c ss r. Ecs (WaitServicesInactive c ss r) \<notin> set t)
       \<and> (\<forall>c xs r. Ecs (WaitTasksStopped c xs r) \<notin> set t)
       \<and> (\<forall>cs r. Ecs (WaitEcsClusterDeleted cs r) \<notin> set t)"
  proof
    assume "\<not> wait"
    then have tf: "t = trace_of (delete_all_ecs_clusters client fuel region False) w"
      by (simp add: t_def)
    have "\<And>e. e \<in> set t \<Longrightarrow> \<not> ecs_waiter e"
      unfolding tf by (rule emits_trace[OF delete_all_ecs_clusters_unawaited])
    then show "(\<forall>c ss r. Ecs (WaitServicesInactive c ss r) \<notin> set t)
       \<and> (\<forall>c xs r. Ecs (WaitTasksStopped c xs r) \<notin> set t)
       \<and> (\<forall>cs r. Ecs (WaitEcsClusterDeleted cs r) \<notin> set t)"
      unfolding ecs_waiter_def by blast
  qed
  from first second show ?thesis unfolding t_def Let_def by (rule conjI)
qed

lemmas ecs_defs = delete_all_ecs_clusters_def delete_ecs_cluster_def delete_ecs_service_def
  stop_ecs_task_def

lemmas test_ecs_defs = test_ecs_def test_ecs_delete_cluster_def services_of_def tasks_of_def
  in_cluster_def request_def settle_def page_from_def token_of_def empty_region_def

text \<open>The cluster with one service and one task, with \<open>wait\<close>.\<close>

lemma busy_cluster_waiting_trace:
  "trace_of (delete_all_ecs_clusters test_ecs 2 ''r'' True) busy_cluster =
    [Ecs (EcsListClusters None (Inr ([''c1''], None))),
     Ecs (ListServices ''c1'' None (Inr ([''svc''], None))),
     Print ''Deleting service: svc in cluster: c1 in region r'',
     Ecs (UpdateService ''c1'' ''svc'' 0 (Inr ())),
     Ecs (DeleteService ''c1'' ''svc'' True (Inr ())),
     Ecs (WaitServicesInactive ''c1'' [''svc''] (Inr ())),
     Print ''Deleted service: svc in cluster: c1 in region r'',
     Ecs (ListTasks ''c1'' None (Inr ([''task''], None))),
     Print ''Stopping task: task in cluster: c1 in region r'',
     Ecs (StopTask ''c1'' ''task'' (Inr ())),
     Ecs (WaitTasksStopped ''c1'' [''task''] (Inr ())),
     Print ''Stopped task: task in cluster: c1 in region r'',
     Print ''Deleting ECS cluster: c1 in region r'',
     Ecs (EcsDeleteCluster ''c1'' (Inr ())),
     Ecs (WaitEcsClusterDeleted [''c1''] (Inr ())),
     Print ''Deleted ECS cluster: c1 in region r'']"
  by (simp add: trace_of_def run_def ecs_defs prog_defs test_ecs_defs busy_cluster_def numeral_2_eq_2)

theorem ecs_cluster_delete_after_requests_witness:
  "(let t = trace_of (delete_all_ecs_clusters test_ecs 2 ''r'' True) busy_cluster in
     t ! 13 = Ecs (EcsDeleteCluster ''c1'' (Inr ()))
     \<and> service_listed (take 13 t) ''c1'' ''svc''
     \<and> Ecs (UpdateService ''c1'' ''svc'' 0 (Inr ())) \<in> set (take 13 t)
     \<and> Ecs (DeleteService ''c1'' ''svc'' True (Inr ())) \<in> set (take 13 t)
     \<and> Ecs (WaitServicesInactive ''c1'' [''svc''] (Inr ())) \<in> set (take 13 t)
     \<and> task_listed (take 13 t) ''c1'' ''task''
     \<and> Ecs (StopTask ''c1'' ''task'' (Inr ())) \<in> set (take 13 t)
     \<and> Ecs (WaitTasksStopped ''c1'' [''task''] (Inr ())) \<in> set (take 13 t))
   \<and> (let t = trace_of (delete_all_ecs_clusters test_ecs 2 ''r'' False) busy_cluster in
     Ecs (WaitServicesInactive ''c1'' [''svc''] (Inr ())) \<notin> set t
     \<and> Ecs (WaitTasksStopped ''c1'' [''task''] (Inr ())) \<notin> set t)"
proof -
  let ?t = "trace_of (delete_all_ecs_clusters test_ecs 2 ''r'' True) busy_cluster"
  let ?u = "trace_of (delete_all_ecs_clusters test_ecs 2 ''r'' False) busy_cluster"
  note c = ecs_cluster_delete_after_requests[of test_ecs 2 "''r''" True busy_cluster,
      unfolded Let_def, THEN conjunct1, rule_format, of 13 "''c1''" "Inr ()"]
  note n = ecs_cluster_delete_after_requests[of test_ecs 2 "''r''" False busy_cluster,
      unfolded Let_def, THEN conjunct2, THEN mp]
  have len: "13 < length ?t" and d: "?t ! 13 = Ecs (EcsDeleteCluster ''c1'' (Inr ()))"
    by (simp_all add: busy_cluster_waiting_trace)
  have pre: "take 13 ?t =
    [Ecs (EcsListClusters None (Inr ([''c1''], None))),
     Ecs (ListServices ''c1'' None (Inr ([''svc''], None))),
     Print ''Deleting service: svc in cluster: c1 in region r'',
     Ecs (UpdateService ''c1'' ''svc'' 0 (Inr ())),
     Ecs (DeleteService ''c1'' ''svc'' True (Inr ())),
     Ecs (WaitServicesInactive ''c1'' [''svc''] (Inr ())),
     Print ''Deleted service: svc in cluster: c1 in region r'',
     Ecs (ListTasks ''c1'' None (Inr ([''task''], None))),
     Print ''Stopping task: task in cluster: c1 in region r'',
     Ecs (StopTask ''c1'' ''task'' (Inr ())),
     Ecs (WaitTasksStopped ''c1'' [''task''] (Inr ())),
     Print ''Stopped task: task in cluster: c1 in region r'',
     Print ''Deleting ECS cluster: c1 in region r'']"
    by (simp add: busy_cluster_waiting_trace)
  have sl: "service_listed (take 13 ?t) ''c1'' ''svc''"
    unfolding pre service_listed_def by auto
  have tl: "task_listed (take 13 ?t) ''c1'' ''task''"
    unfolding pre task_listed_def by auto
  have f: "\<not> False" by simp
  from n[OF f] have u: "Ecs (WaitServicesInactive ''c1'' [''svc''] (Inr ())) \<notin> set ?u
     \<and> Ecs (WaitTasksStopped ''c1'' [''task''] (Inr ())) \<notin> set ?u"
    by blast
  from c[OF len d, THEN conjunct1, rule_format, OF sl] c[OF len d, THEN conjunct2, rule_format, OF tl] d sl tl u
  show ?thesis by (simp add: Let_def)
qed

text \<open>
  The same cluster without \<open>wait\<close> (C3 as stated, for every value of the flag): the
  \<^verbatim>\<open>delete_cluster\<close> call is issued when the service and the task were listed and
  requested but no waiter has run; in the provider's state at that moment the service is
  still draining and the task still stopping, the provider refuses the call, and the run
  ends with that fault.
\<close>

lemma busy_cluster_run:
  "run (delete_all_ecs_clusters test_ecs 2 ''r'' False) busy_cluster =
    (Raised (ClientError ''ClusterContainsServicesException''),
     busy_cluster\<lparr>ecs_clusters := [(''c1'', [(''svc'', True)], [(''task'', True)])]\<rparr>,
     [Ecs (EcsListClusters None (Inr ([''c1''], None))),
      Ecs (ListServices ''c1'' None (Inr ([''svc''], None))),
      Print ''Deleting service: svc in cluster: c1 in region r'',
      Ecs (UpdateService ''c1'' ''svc'' 0 (Inr ())),
      Ecs (DeleteService ''c1'' ''svc'' True (Inr ())),
      Ecs (ListTasks ''c1'' None (Inr ([''task''], None))),
      Print ''Stopping task: task in cluster: c1 in region r'',
      Ecs (StopTask ''c1'' ''task'' (Inr ())),
      Print ''Deleting ECS cluster: c1 in region r'',
      Ecs (EcsDeleteCluster ''c1'' (Inl (ClientError ''ClusterContainsServicesException'')))])"
  by (simp add: run_def ecs_defs prog_defs test_ecs_defs busy_cluster_def numeral_2_eq_2)

theorem ecs_cluster_not_cleared_without_wait:
  "(let (outcome, w, t) = run (delete_all_ecs_clusters test_ecs 2 ''r'' False) busy_cluster in
     t ! 9 = Ecs (EcsDeleteCluster ''c1'' (Inl (ClientError ''ClusterContainsServicesException'')))
     \<and> \<not> cluster_cleared (take 9 t) ''c1''
     \<and> service_listed (take 9 t) ''c1'' ''svc''
     \<and> Ecs (WaitServicesInactive ''c1'' [''svc''] (Inr ())) \<notin> set (take 9 t)
     \<and> task_listed (take 9 t) ''c1'' ''task''
     \<and> Ecs (WaitTasksStopped ''c1'' [''task''] (Inr ())) \<notin> set (take 9 t)
     \<and> services_of ''c1'' w = [(''svc'', True)]
     \<and> tasks_of ''c1'' w = [(''task'', True)]
     \<and> outcome = Raised (ClientError ''ClusterContainsServicesException''))"
proof -
  have sl: "service_listed
     [Ecs (EcsListClusters None (Inr ([''c1''], None))),
      Ecs (ListServices ''c1'' None (Inr ([''svc''], None))),
      Print ''Deleting service: svc in cluster: c1 in region r'',
      Ecs (UpdateService ''c1'' ''svc'' 0 (Inr ())),
      Ecs (DeleteService ''c1'' ''svc'' True (Inr ())),
      Ecs (ListTasks ''c1'' None (Inr ([''task''], None))),
      Print ''Stopping task: task in cluster: c1 in region r'',
      Ecs (StopTask ''c1'' ''task'' (Inr ())),
      Print ''Deleting ECS cluster: c1 in region r''] ''c1'' ''svc''"
    unfolding service_listed_def by auto
  have tl: "task_listed
     [Ecs (EcsListClusters None (Inr ([''c1''], None))),
      Ecs (ListServices ''c1'' None (Inr ([''svc''], None))),
      Print ''Deleting service: svc in cluster: c1 in region r'',
      Ecs (UpdateService ''c1'' ''svc'' 0 (Inr ())),
      Ecs (DeleteService ''c1'' ''svc'' True (Inr ())),
      Ecs (ListTasks ''c1'' None (Inr ([''task''], None))),
      Print ''Stopping task: task in cluster: c1 in region r'',
      Ecs (StopTask ''c1'' ''task'' (Inr ())),
      Print ''Deleting ECS cluster: c1 in region r''] ''c1'' ''task''"
    unfolding task_listed_def by auto
  have nc: "\<not> cluster_cleared
     [Ecs (EcsListClusters None (Inr ([''c1''], None))),
      Ecs (ListServices ''c1'' None (Inr ([''svc''], None))),
      Print ''Deleting service: svc in cluster: c1 in region r'',
      Ecs (UpdateService ''c1'' ''svc'' 0 (Inr ())),
      Ecs (DeleteService ''c1'' ''svc'' True (Inr ())),
      Ecs (ListTasks ''c1'' None (Inr ([''task''], None))),
      Print ''Stopping task: task in cluster: c1 in region r'',
      Ecs (StopTask ''c1'' ''task'' (Inr ())),
      Print ''Deleting ECS cluster: c1 in region r''] ''c1''"
  proof
    assume "cluster_cleared
     [Ecs (EcsListClusters None (Inr ([''c1''], None))),
      Ecs (ListServices ''c1'' None (Inr ([''svc''], None))),
      Print ''Deleting service: svc in cluster: c1 in region r'',
      Ecs (UpdateService ''c1'' ''svc'' 0 (Inr ())),
      Ecs (DeleteService ''c1'' ''svc'' True (Inr ())),
      Ecs (ListTasks ''c1'' None (Inr ([''task''], None))),
      Print ''Stopping task: task in cluster: c1 in region r'',
      Ecs (StopTask ''c1'' ''task'' (Inr ())),
      Print ''Deleting ECS cluster: c1 in region r''] ''c1''"
    with sl show False
      unfolding cluster_cleared_def service_awaited_def by auto
  qed
  show ?thesis
    unfolding busy_cluster_run
    by (simp add: sl tl nc services_of_def tasks_of_def busy_cluster_def)
qed

section \<open>The order of the driver\<close>

lemmas within_defs = within_def procedure_of_def blocking_def


lemma procedures_append: "procedures (t @ u) = procedures t @ procedures u"
  by (simp add: procedures_def map_filter_def)

lemma remdups_adj_snoc:
  "remdups_adj (xs @ [y]) = (if xs \<noteq> [] \<and> last xs = y then remdups_adj xs else remdups_adj xs @ [y])"
proof (cases xs rule: rev_cases)
  case Nil
  then show ?thesis by simp
next
  case (snoc ys x)
  then show ?thesis by (simp add: remdups_adj_append_two)
qed

lemma reached_quiet:
  assumes "reached ps t" and "procedure_of e = None" and "\<not> blocking e"
  shows "reached ps (t @ [e])"
  using assms by (simp add: reached_def procedures_append procedures_def map_filter_def)

lemma reached_same:
  assumes r: "reached (ps @ [p]) t" and e: "procedure_of e = Some p" and b: "\<not> blocking e"
  shows "reached (ps @ [p]) (t @ [e])"
proof -
  from r have eq: "remdups_adj (procedures t) = ps @ [p]" by (simp add: reached_def)
  then have ne: "procedures t \<noteq> []" by auto
  have "last (procedures t) = last (remdups_adj (procedures t))" by simp
  with eq have "last (procedures t) = p" by simp
  with ne eq have "remdups_adj (procedures t @ [p]) = ps @ [p]" by (simp add: remdups_adj_snoc)
  moreover have "procedures (t @ [e]) = procedures t @ [p]"
    using e by (simp add: procedures_append) (simp add: procedures_def map_filter_def)
  ultimately show ?thesis using r b by (simp add: reached_def)
qed

lemma reached_next:
  assumes r: "reached ps t" and e: "procedure_of e = Some p" and b: "\<not> blocking e"
    and n: "ps = [] \<or> last ps \<noteq> p"
  shows "reached (ps @ [p]) (t @ [e])"
proof -
  from r have eq: "remdups_adj (procedures t) = ps" by (simp add: reached_def)
  have l: "last (procedures t) = last (remdups_adj (procedures t))" by simp
  have "remdups_adj (procedures t @ [p]) = ps @ [p]"
  proof (cases "procedures t = []")
    case True
    with eq show ?thesis by simp
  next
    case False
    with eq have "ps \<noteq> []" by auto
    with n l eq have "last (procedures t) \<noteq> p" by simp
    with eq show ?thesis by (simp add: remdups_adj_snoc)
  qed
  moreover have "procedures (t @ [e]) = procedures t @ [p]"
    using e by (simp add: procedures_append) (simp add: procedures_def map_filter_def)
  ultimately show ?thesis using r b by (simp add: reached_def)
qed

lemma reached_within:
  assumes "reached (ps @ [p]) t" and "\<forall>e \<in> set es. within p e"
  shows "reached (ps @ [p]) (t @ es)"
  using assms(2)
proof (induction es rule: rev_induct)
  case Nil
  show ?case using assms(1) by simp
next
  case (snoc e es)
  then have r: "reached (ps @ [p]) (t @ es)" and w: "within p e" by simp_all
  from w have "reached (ps @ [p]) ((t @ es) @ [e])"
    unfolding within_def using reached_quiet[OF r] reached_same[OF r] by blast
  then show ?case by simp
qed

lemma emits_reached:
  assumes m: "emits (within p) m"
  shows "hoare (reached (ps @ [p])) m (\<lambda>_. reached (ps @ [p])) (reached (ps @ [p]))"
proof (rule hoareI)
  fix w t assume r: "reached (ps @ [p]) t"
  obtain o' w' t' where eq: "m (w, t) = (o', w', t')" by (cases "m (w, t)") auto
  from m[unfolded emits_def, rule_format, of w t] eq
  obtain es where "t' = t @ es" "\<forall>e \<in> set es. within p e" by auto
  with reached_within[OF r] have "reached (ps @ [p]) t'" by simp
  with eq show "case m (w, t) of (Done x, w', t') \<Rightarrow> reached (ps @ [p]) t'
      | (Raised f, w', t') \<Rightarrow> reached (ps @ [p]) t' | (Cut, w', t') \<Rightarrow> reached (ps @ [p]) t'"
    by (cases o') simp_all
qed

lemma enter_call:
  assumes e: "\<And>r. procedure_of (ev r) = Some p \<and> \<not> blocking (ev r)" and n: "ps = [] \<or> last ps \<noteq> p"
    and f: "\<And>x. emits (within p) (f x)"
  shows "hoare (reached ps) (bind (call ev op) f) (\<lambda>_. reached (ps @ [p]))
           (\<lambda>t. reached ps t \<or> reached (ps @ [p]) t)"
proof (rule hoare_bind[where R = "\<lambda>_. reached (ps @ [p])"])
  show "hoare (reached ps) (call ev op) (\<lambda>_. reached (ps @ [p])) (\<lambda>t. reached ps t \<or> reached (ps @ [p]) t)"
  proof (rule hoare_call)
    fix t x assume "reached ps t"
    then show "reached (ps @ [p]) (t @ [ev (Inr x)])"
      using e n by (intro reached_next) auto
  next
    fix t f assume "reached ps t"
    then have "reached (ps @ [p]) (t @ [ev (Inl f)])"
      using e n by (intro reached_next) auto
    then show "reached ps (t @ [ev (Inl f)]) \<or> reached (ps @ [p]) (t @ [ev (Inl f)])" ..
  qed
next
  fix x
  show "hoare (reached (ps @ [p])) (f x) (\<lambda>_. reached (ps @ [p])) (\<lambda>t. reached ps t \<or> reached (ps @ [p]) t)"
    by (rule hoare_weaken[OF emits_reached[OF f, where ps = ps]]) simp_all
qed

lemma enter_for_pages:
  assumes e: "\<And>tok r. procedure_of (ev tok r) = Some p \<and> \<not> blocking (ev tok r)"
    and n: "ps = [] \<or> last ps \<noteq> p"
    and b: "\<And>items. emits (within p) (body items)"
  shows "hoare (reached ps) (for_pages fuel (\<lambda>tok. call (ev tok) (op tok)) body tok)
           (\<lambda>_. reached (ps @ [p])) (\<lambda>t. reached ps t \<or> reached (ps @ [p]) t)"
proof (cases fuel)
  case 0
  then show ?thesis by (simp add: hoare_def cut_def)
next
  case (Suc k)
  have w: "\<And>tok r. within p (ev tok r)" using e by (simp add: within_def)
  have rest: "emits (within p) (case x of (items, next) \<Rightarrow> seq (body items)
         (case next of None \<Rightarrow> ret ()
          | Some t \<Rightarrow> for_pages k (\<lambda>tok. call (ev tok) (op tok)) body (Some t)))" for x
    by (intro emits_case_prod emits_seq emits_case_option emits_ret emits_for_pages emits_call b w)
  show ?thesis unfolding Suc for_pages.simps
    by (rule enter_call[OF e n rest])
qed

lemma auto_scaling_groups_emit:
  "emits (within AutoScalingGroups) (for_each groups (\<lambda>asg_name.
          seq (print (''Deleting Auto Scaling group: '' @ asg_name @ '' in region '' @ region))
         (seq (call (\<lambda>r. Asg (DeleteAutoScalingGroup asg_name True r))
                 (delete_auto_scaling_group client asg_name True))
              (print (''Deleted Auto Scaling group: '' @ asg_name @ '' in region '' @ region)))))"
  by (intro emits_intros) (simp_all add: within_defs)

lemma delete_ecs_cluster_emits:
  "emits (within ContainerClusters) (delete_ecs_cluster client fuel region True c)"
  unfolding delete_ecs_cluster_def delete_ecs_service_def stop_ecs_task_def if_True
  by (intro emits_intros) (simp_all add: within_defs)

lemma ec2_instances_emit:
  "emits (within ComputeInstances) (for_each page (\<lambda>instances. for_each instances (\<lambda>instance_id.
          seq (print (''Terminating EC2 instance: '' @ instance_id @ '' in region '' @ region))
         (seq (call (\<lambda>r. Ec2 (TerminateInstances [instance_id] r))
                 (terminate_instances client [instance_id]))
              (ret ())))))"
  by (intro emits_intros) (simp_all add: within_defs)

lemma delete_lambda_function_emits:
  "emits (within ServerlessFunctions) (delete_lambda_function client fuel region fn)"
  unfolding delete_lambda_function_def
  by (intro emits_intros) (simp_all add: within_defs)

lemma delete_peering_connection_emits:
  "emits (within NetworkPeering) (delete_peering_connection client region pcx)"
  unfolding delete_peering_connection_def delete_peering_route_def
  by (intro emits_intros) (simp_all add: within_defs)

lemma delete_eks_cluster_emits:
  "emits (within KubernetesClusters) (delete_eks_cluster client region False c)"
  unfolding delete_eks_cluster_def delete_eks_nodegroup_def if_False
  by (intro emits_intros) (simp_all add: within_defs)

lemma stack_pass_emits:
  "emits (within CloudFormationStacks) (stack_pass client fuel region False statuses selected)"
  unfolding stack_pass_def delete_one_stack_def if_False
  by (intro emits_intros) (simp_all add: within_defs)


lemma auto_scaling_groups_stage:
  assumes "ps = [] \<or> last ps \<noteq> AutoScalingGroups"
  shows "hoare (reached ps) (delete_all_auto_scaling_groups client fuel region)
     (\<lambda>_. reached (ps @ [AutoScalingGroups]))
     (\<lambda>t. reached ps t \<or> reached (ps @ [AutoScalingGroups]) t)"
  unfolding delete_all_auto_scaling_groups_def
  by (rule enter_for_pages[OF _ assms]) (simp add: within_defs, rule auto_scaling_groups_emit)

lemma ecs_clusters_stage:
  assumes "ps = [] \<or> last ps \<noteq> ContainerClusters"
  shows "hoare (reached ps) (delete_all_ecs_clusters client fuel region True)
     (\<lambda>_. reached (ps @ [ContainerClusters]))
     (\<lambda>t. reached ps t \<or> reached (ps @ [ContainerClusters]) t)"
  unfolding delete_all_ecs_clusters_def
  by (rule enter_for_pages[OF _ assms])
    (simp add: within_defs, intro emits_for_each delete_ecs_cluster_emits)

lemma ec2_instances_stage:
  assumes "ps = [] \<or> last ps \<noteq> ComputeInstances"
  shows "hoare (reached ps) (terminate_all_ec2_instances client fuel region False)
     (\<lambda>_. reached (ps @ [ComputeInstances]))
     (\<lambda>t. reached ps t \<or> reached (ps @ [ComputeInstances]) t)"
  unfolding terminate_all_ec2_instances_def if_False
  by (rule enter_for_pages[OF _ assms]) (simp add: within_defs, rule ec2_instances_emit)

lemma lambda_functions_stage:
  assumes "ps = [] \<or> last ps \<noteq> ServerlessFunctions"
  shows "hoare (reached ps) (delete_all_lambda_functions client fuel region)
     (\<lambda>_. reached (ps @ [ServerlessFunctions]))
     (\<lambda>t. reached ps t \<or> reached (ps @ [ServerlessFunctions]) t)"
  unfolding delete_all_lambda_functions_def
  by (rule enter_for_pages[OF _ assms])
    (simp add: within_defs, intro emits_for_each delete_lambda_function_emits)

lemma peering_connections_stage:
  assumes "ps = [] \<or> last ps \<noteq> NetworkPeering"
  shows "hoare (reached ps) (delete_all_peering_connections client region)
     (\<lambda>_. reached (ps @ [NetworkPeering]))
     (\<lambda>t. reached ps t \<or> reached (ps @ [NetworkPeering]) t)"
  unfolding delete_all_peering_connections_def
  by (rule enter_call[OF _ assms])
    (simp add: within_defs, intro emits_case_prod emits_for_each delete_peering_connection_emits)

lemma opensearch_clusters_stage:
  assumes "ps = [] \<or> last ps \<noteq> SearchClusters"
  shows "hoare (reached ps) (delete_all_opensearch_clusters client region)
     (\<lambda>_. reached (ps @ [SearchClusters]))
     (\<lambda>t. reached ps t \<or> reached (ps @ [SearchClusters]) t)"
  unfolding delete_all_opensearch_clusters_def
  by (rule enter_call[OF _ assms])
    (simp add: within_defs, (intro emits_intros; simp add: within_defs))

lemma kinesis_streams_stage:
  assumes "ps = [] \<or> last ps \<noteq> StreamingPipelines"
  shows "hoare (reached ps) (delete_all_kinesis_streams kin fh region)
     (\<lambda>_. reached (ps @ [StreamingPipelines]))
     (\<lambda>t. reached ps t \<or> reached (ps @ [StreamingPipelines]) t)"
  unfolding delete_all_kinesis_streams_def
  by (rule enter_call[OF _ assms])
    (simp add: within_defs, (intro emits_intros; simp add: within_defs))

lemma eks_clusters_stage:
  assumes "ps = [] \<or> last ps \<noteq> KubernetesClusters"
  shows "hoare (reached ps) (delete_all_eks_clusters client region False)
     (\<lambda>_. reached (ps @ [KubernetesClusters]))
     (\<lambda>t. reached ps t \<or> reached (ps @ [KubernetesClusters]) t)"
  unfolding delete_all_eks_clusters_def
  by (rule enter_call[OF _ assms])
    (simp add: within_defs, intro emits_case_prod emits_for_each delete_eks_cluster_emits)

lemma stacks_stage:
  assumes "ps = [] \<or> last ps \<noteq> CloudFormationStacks"
  shows "hoare (reached ps) (delete_all_stacks client fuel region False)
     (\<lambda>_. reached (ps @ [CloudFormationStacks]))
     (\<lambda>t. reached ps t \<or> reached (ps @ [CloudFormationStacks]) t)"
  unfolding delete_all_stacks_def
proof (rule hoare_seq[where R = "reached (ps @ [CloudFormationStacks])"])
  have body: "emits (within CloudFormationStacks) (for_each summaries (\<lambda>stack.
          if selected (StackName stack)
          then delete_one_stack client region False (StackName stack)
          else ret ()))" for summaries :: "stack_summary list" and selected
    unfolding delete_one_stack_def if_False
    by (intro emits_intros) (simp_all add: within_defs)
  show "hoare (reached ps) (stack_pass client fuel region False first_pass_statuses in_first_pass)
     (\<lambda>_. reached (ps @ [CloudFormationStacks]))
     (\<lambda>t. reached ps t \<or> reached (ps @ [CloudFormationStacks]) t)"
    unfolding stack_pass_def
    by (rule enter_for_pages[OF _ assms]) (simp add: within_defs, rule body)
  show "hoare (reached (ps @ [CloudFormationStacks]))
     (stack_pass client fuel region False second_pass_statuses in_second_pass)
     (\<lambda>_. reached (ps @ [CloudFormationStacks]))
     (\<lambda>t. reached ps t \<or> reached (ps @ [CloudFormationStacks]) t)"
    by (rule hoare_weaken[OF emits_reached[OF stack_pass_emits, where ps = ps]]) simp_all
qed

lemma stage_step:
  assumes h: "hoare (reached ps) m (\<lambda>_. reached (ps @ [p])) (\<lambda>t. reached ps t \<or> reached (ps @ [p]) t)"
    and o: "prefix (ps @ [p]) driver_order"
  shows "hoare (reached ps) m (\<lambda>_. reached (ps @ [p])) (\<lambda>t. \<exists>qs. prefix qs driver_order \<and> reached qs t)"
proof (rule hoare_weaken[OF h])
  fix t assume "reached ps t \<or> reached (ps @ [p]) t"
  moreover from o have "prefix ps driver_order" by (rule append_prefixD)
  ultimately show "\<exists>qs. prefix qs driver_order \<and> reached qs t" using o by blast
qed simp_all

lemma main_stages:
  "hoare (reached []) (main b fuel) (\<lambda>_. reached driver_order)
     (\<lambda>t. \<exists>qs. prefix qs driver_order \<and> reached qs t)"
proof -
  have 1: "hoare (reached []) (delete_all_auto_scaling_groups (autoscaling_client b) fuel ''cn-north-1'')
      (\<lambda>_. reached [AutoScalingGroups]) (\<lambda>t. \<exists>qs. prefix qs driver_order \<and> reached qs t)"
    using stage_step[OF auto_scaling_groups_stage, of "[]"] by (simp add: driver_order_def)
  have 2: "hoare (reached [AutoScalingGroups])
      (delete_all_ecs_clusters (ecs_client b) fuel ''cn-north-1'' True)
      (\<lambda>_. reached [AutoScalingGroups, ContainerClusters])
      (\<lambda>t. \<exists>qs. prefix qs driver_order \<and> reached qs t)"
    using stage_step[OF ecs_clusters_stage, of "[AutoScalingGroups]"] by (simp add: driver_order_def)
  have 3: "hoare (reached [AutoScalingGroups, ContainerClusters])
      (terminate_all_ec2_instances (ec2_client b) fuel ''cn-north-1'' False)
      (\<lambda>_. reached [AutoScalingGroups, ContainerClusters, ComputeInstances])
      (\<lambda>t. \<exists>qs. prefix qs driver_order \<and> reached qs t)"
    using stage_step[OF ec2_instances_stage, of "[AutoScalingGroups, ContainerClusters]"]
    by (simp add: driver_order_def)
  have 4: "hoare (reached [AutoScalingGroups, ContainerClusters, ComputeInstances])
      (delete_all_lambda_functions (lambda_client b) fuel ''cn-north-1'')
      (\<lambda>_. reached [AutoScalingGroups, ContainerClusters, ComputeInstances, ServerlessFunctions])
      (\<lambda>t. \<exists>qs. prefix qs driver_order \<and> reached qs t)"
    using stage_step[OF lambda_functions_stage, of "[AutoScalingGroups, ContainerClusters, ComputeInstances]"]
    by (simp add: driver_order_def)
  have 5: "hoare (reached [AutoScalingGroups, ContainerClusters, ComputeInstances, ServerlessFunctions])
      (delete_all_peering_connections (ec2_client b) ''cn-north-1'')
      (\<lambda>_. reached [AutoScalingGroups, ContainerClusters, ComputeInstances, ServerlessFunctions,
            NetworkPeering])
      (\<lambda>t. \<exists>qs. prefix qs driver_order \<and> reached qs t)"
    using stage_step[OF peering_connections_stage,
        of "[AutoScalingGroups, ContainerClusters, ComputeInstances, ServerlessFunctions]"]
    by (simp add: driver_order_def)
  have 6: "hoare (reached [AutoScalingGroups, ContainerClusters, ComputeInstances, ServerlessFunctions,
            NetworkPeering])
      (delete_all_opensearch_clusters (opensearch_client b) ''cn-north-1'')
      (\<lambda>_. reached [AutoScalingGroups, ContainerClusters, ComputeInstances, ServerlessFunctions,
            NetworkPeering, SearchClusters])
      (\<lambda>t. \<exists>qs. prefix qs driver_order \<and> reached qs t)"
    using stage_step[OF opensearch_clusters_stage,
        of "[AutoScalingGroups, ContainerClusters, ComputeInstances, ServerlessFunctions, NetworkPeering]"]
    by (simp add: driver_order_def)
  have 7: "hoare (reached [AutoScalingGroups, ContainerClusters, ComputeInstances, ServerlessFunctions,
            NetworkPeering, SearchClusters])
      (delete_all_kinesis_streams (kinesis_client b) (firehose_client b) ''cn-north-1'')
      (\<lambda>_. reached [AutoScalingGroups, ContainerClusters, ComputeInstances, ServerlessFunctions,
            NetworkPeering, SearchClusters, StreamingPipelines])
      (\<lambda>t. \<exists>qs. prefix qs driver_order \<and> reached qs t)"
    using stage_step[OF kinesis_streams_stage,
        of "[AutoScalingGroups, ContainerClusters, ComputeInstances, ServerlessFunctions, NetworkPeering,
             SearchClusters]"]
    by (simp add: driver_order_def)
  have 8: "hoare (reached [AutoScalingGroups, ContainerClusters, ComputeInstances, ServerlessFunctions,
            NetworkPeering, SearchClusters, StreamingPipelines])
      (delete_all_eks_clusters (eks_client b) ''cn-north-1'' False)
      (\<lambda>_. reached [AutoScalingGroups, ContainerClusters, ComputeInstances, ServerlessFunctions,
            NetworkPeering, SearchClusters, StreamingPipelines, KubernetesClusters])
      (\<lambda>t. \<exists>qs. prefix qs driver_order \<and> reached qs t)"
    using stage_step[OF eks_clusters_stage,
        of "[AutoScalingGroups, ContainerClusters, ComputeInstances, ServerlessFunctions, NetworkPeering,
             SearchClusters, StreamingPipelines]"]
    by (simp add: driver_order_def)
  have 9: "hoare (reached [AutoScalingGroups, ContainerClusters, ComputeInstances, ServerlessFunctions,
            NetworkPeering, SearchClusters, StreamingPipelines, KubernetesClusters])
      (delete_all_stacks (cloudformation_client b) fuel ''cn-north-1'' False)
      (\<lambda>_. reached driver_order)
      (\<lambda>t. \<exists>qs. prefix qs driver_order \<and> reached qs t)"
    using stage_step[OF stacks_stage,
        of "[AutoScalingGroups, ContainerClusters, ComputeInstances, ServerlessFunctions, NetworkPeering,
             SearchClusters, StreamingPipelines, KubernetesClusters]"]
    by (simp add: driver_order_def)
  show ?thesis unfolding main_def Let_def
    by (intro hoare_seq[OF 1] hoare_seq[OF 2] hoare_seq[OF 3] hoare_seq[OF 4] hoare_seq[OF 5]
        hoare_seq[OF 6] hoare_seq[OF 7] hoare_seq[OF 8] 9)
qed

lemma framed_ret: "framed (ret x)"
  by (simp add: framed_def ret_def)

lemma framed_raise: "framed (raise f)"
  by (simp add: framed_def raise_def)

lemma framed_cut: "framed cut"
  by (simp add: framed_def cut_def)

lemma framed_print: "framed (print msg)"
  by (simp add: framed_def print_def)

lemma framed_sleep: "framed (sleep n)"
  by (simp add: framed_def sleep_def)

lemma framed_call: "framed (call ev op)"
  by (auto simp: framed_def call_def split: prod.splits sum.splits)

lemma framedD: "framed m \<Longrightarrow> m (w, []) = (out, w', es) \<Longrightarrow> m (w, t) = (out, w', t @ es)"
  unfolding framed_def
proof -
  assume a: "\<forall>w t. m (w, t) = (case m (w, []) of (out, w', es) \<Rightarrow> (out, w', t @ es))"
    and e: "m (w, []) = (out, w', es)"
  from a[rule_format, of w t] e show "m (w, t) = (out, w', t @ es)" by simp
qed

lemma framed_bind:
  assumes m: "framed m" and f: "\<And>x. framed (f x)"
  shows "framed (bind m f)"
  unfolding framed_def
proof (intro allI)
  fix w t
  obtain r w1 es1 where e0: "m (w, []) = (r, w1, es1)" by (cases "m (w, [])") auto
  from framedD[OF m e0] have et: "m (w, t) = (r, w1, t @ es1)" .
  show "bind m f (w, t) = (case bind m f (w, []) of (out, w', es) \<Rightarrow> (out, w', t @ es))"
  proof (cases r)
    case (Done x)
    obtain r2 w2 es2 where e2: "f x (w1, []) = (r2, w2, es2)" by (cases "f x (w1, [])") auto
    from framedD[OF f e2, of es1] framedD[OF f e2, of "t @ es1"] Done e0 et
    show ?thesis by (simp add: bind_def)
  next
    case (Raised e) with e0 et show ?thesis by (simp add: bind_def)
  next
    case Cut with e0 et show ?thesis by (simp add: bind_def)
  qed
qed

lemma framed_seq: "framed m \<Longrightarrow> framed n \<Longrightarrow> framed (seq m n)"
  unfolding seq_def by (rule framed_bind)

lemma framed_attempt: "framed m \<Longrightarrow> framed (attempt m)"
  unfolding framed_def
proof (intro allI)
  fix w t assume a: "\<forall>w t. m (w, t) = (case m (w, []) of (out, w', es) \<Rightarrow> (out, w', t @ es))"
  obtain r w1 es1 where e0: "m (w, []) = (r, w1, es1)" by (cases "m (w, [])") auto
  from a[rule_format, of w t] e0 have et: "m (w, t) = (r, w1, t @ es1)" by simp
  from e0 et show "attempt m (w, t) = (case attempt m (w, []) of (out, w', es) \<Rightarrow> (out, w', t @ es))"
    by (cases r) (simp_all add: attempt_def)
qed

lemma framed_if: "framed m \<Longrightarrow> framed n \<Longrightarrow> framed (if b then m else n)"
  by simp

lemma framed_case_prod: "(\<And>a b. framed (f a b)) \<Longrightarrow> framed (case_prod f p)"
  by (cases p) simp

lemma framed_case_list:
  "framed m \<Longrightarrow> (\<And>x xs. framed (f x xs)) \<Longrightarrow> framed (case l of [] \<Rightarrow> m | x # xs \<Rightarrow> f x xs)"
  by (cases l) simp_all

lemma framed_case_option:
  "framed m \<Longrightarrow> (\<And>x. framed (f x)) \<Longrightarrow> framed (case v of None \<Rightarrow> m | Some x \<Rightarrow> f x)"
  by (cases v) simp_all

lemma framed_for_each: "(\<And>x. framed (body x)) \<Longrightarrow> framed (for_each xs body)"
  by (induction xs) (simp_all add: framed_ret framed_seq)

lemma framed_for_pages:
  assumes "\<And>tok. framed (fetch tok)" and "\<And>items. framed (body items)"
  shows "framed (for_pages n fetch body tok)"
proof (induction n arbitrary: tok)
  case 0
  show ?case by (simp add: framed_cut)
next
  case (Suc n)
  show ?case
    by (simp, intro framed_bind framed_case_prod framed_seq framed_case_option framed_ret assms Suc.IH)
qed

lemma framed_poll_function: "framed (poll_function n client region fn)"
proof (induction n)
  case 0
  show ?case by (simp add: framed_cut)
next
  case (Suc n)
  have k: "framed (case r of
           Inl (ResourceNotFoundException m) \<Rightarrow>
             print (''Deleted Lambda function: '' @ fn @ '' in region '' @ region)
         | Inl e \<Rightarrow> print (''Error checking function status: '' @ fault_text e)
         | Inr u \<Rightarrow> seq (sleep 5) (poll_function n client region fn))" for r :: "unit result"
    by (auto split: sum.split fault.split intro!: framed_print framed_seq framed_sleep Suc.IH)
  show ?case
    by (subst poll_function.simps(2)) (intro framed_bind framed_attempt framed_call k)
qed

lemmas framed_intros = framed_ret framed_raise framed_cut framed_print framed_sleep framed_call
  framed_bind framed_seq framed_attempt framed_if framed_case_prod framed_case_list
  framed_case_option framed_for_each framed_for_pages framed_poll_function

lemma framed_auto_scaling_groups: "framed (delete_all_auto_scaling_groups client fuel region)"
  unfolding delete_all_auto_scaling_groups_def by (intro framed_intros)

lemma framed_ecs_clusters: "framed (delete_all_ecs_clusters client fuel region wait)"
  unfolding delete_all_ecs_clusters_def delete_ecs_cluster_def delete_ecs_service_def stop_ecs_task_def
  by (intro framed_intros)

lemma framed_ec2_instances: "framed (terminate_all_ec2_instances client fuel region wait)"
  unfolding terminate_all_ec2_instances_def by (intro framed_intros)

lemma framed_lambda_functions: "framed (delete_all_lambda_functions client fuel region)"
  unfolding delete_all_lambda_functions_def delete_lambda_function_def by (intro framed_intros)

lemma framed_peering_connections: "framed (delete_all_peering_connections client region)"
  unfolding delete_all_peering_connections_def delete_peering_connection_def delete_peering_route_def
  by (intro framed_intros)

lemma framed_opensearch_clusters: "framed (delete_all_opensearch_clusters client region)"
  unfolding delete_all_opensearch_clusters_def by (intro framed_intros)

lemma framed_kinesis_streams: "framed (delete_all_kinesis_streams kin fh region)"
  unfolding delete_all_kinesis_streams_def by (intro framed_intros)

lemma framed_eks_clusters: "framed (delete_all_eks_clusters client region wait)"
  unfolding delete_all_eks_clusters_def delete_eks_cluster_def delete_eks_nodegroup_def
  by (intro framed_intros)

lemma framed_stacks: "framed (delete_all_stacks client fuel region wait)"
  unfolding delete_all_stacks_def stack_pass_def delete_one_stack_def by (intro framed_intros)

lemma run_each_single: "run_each [m] w = run m w"
proof -
  obtain r w' es where e: "run m w = (r, w', es)" by (cases "run m w") auto
  then show ?thesis by (cases r) simp_all
qed

lemma run_each_seq:
  assumes n: "framed n" and r: "\<And>w. run n w = run_each ms w"
  shows "run (seq m n) w = run_each (m # ms) w"
proof -
  obtain o1 w1 es1 where e1: "m (w, []) = (o1, w1, es1)" by (cases "m (w, [])") auto
  show ?thesis
  proof (cases o1)
    case (Done u)
    obtain o2 w2 es2 where e2: "n (w1, []) = (o2, w2, es2)" by (cases "n (w1, [])") auto
    from r[of w1] e2 have r2: "run_each ms w1 = (o2, w2, es2)" by (simp add: run_def)
    from framedD[OF n e2, of es1] e1 Done
    have "run (seq m n) w = (o2, w2, es1 @ es2)" by (simp add: run_def seq_def bind_def)
    moreover from e1 Done r2 have "run_each (m # ms) w = (o2, w2, es1 @ es2)"
      by (simp add: run_def)
    ultimately show ?thesis by simp
  next
    case (Raised f) with e1 show ?thesis by (simp add: run_def seq_def bind_def)
  next
    case Cut with e1 show ?thesis by (simp add: run_def seq_def bind_def)
  qed
qed

lemma main_runs_contract: "run (main b fuel) w = run_each (driver_contract b fuel) w"
  unfolding main_def Let_def driver_contract_def
  by (intro run_each_seq framed_seq framed_auto_scaling_groups framed_ecs_clusters
      framed_ec2_instances framed_lambda_functions framed_peering_connections
      framed_opensearch_clusters framed_kinesis_streams framed_eks_clusters framed_stacks
      run_each_single[symmetric])

text \<open>
  C4.  The run of the driver is the run of the nine procedures one after the other, in the
  order Auto Scaling groups, container clusters (waiting), compute instances (not waiting),
  serverless functions, network peering, search clusters, streaming pipelines, Kubernetes
  clusters (not waiting), CloudFormation stacks (not waiting): each procedure is run once,
  with these flags, from the provider state its predecessor left, the trace of the driver is
  their traces one after the other, and the first procedure that does not return normally
  ends the driver with its outcome.  Seen from the calls alone, in any run over any provider:
  the calls come in blocks, one block per procedure, and the blocks are in that order; a run
  that ends early (a fault, or the bound on the rounds observed) has gone through a prefix
  of the order, a run that returns normally has gone through all nine.  No instance waiter
  and no stack waiter is ever called.
\<close>

theorem driver_order_of_procedures:
  "run (main b fuel) w = run_each (driver_contract b fuel) w
   \<and> (let t = trace_of (main b fuel) w in
      prefix (remdups_adj (procedures t)) driver_order
    \<and> (outcome_of (main b fuel) w = Done () \<longrightarrow> remdups_adj (procedures t) = driver_order)
    \<and> (\<forall>ids r. Ec2 (WaitInstanceTerminated ids r) \<notin> set t)
    \<and> (\<forall>n r. Cfn (WaitStackDeleteComplete n r) \<notin> set t))"
proof -
  have blocks: "(let t = trace_of (main b fuel) w in
      prefix (remdups_adj (procedures t)) driver_order
    \<and> (outcome_of (main b fuel) w = Done () \<longrightarrow> remdups_adj (procedures t) = driver_order)
    \<and> (\<forall>ids r. Ec2 (WaitInstanceTerminated ids r) \<notin> set t)
    \<and> (\<forall>n r. Cfn (WaitStackDeleteComplete n r) \<notin> set t))"
  proof -
    obtain r w' t where eq: "main b fuel (w, []) = (r, w', t)" by (cases "main b fuel (w, [])") auto
    have start: "reached [] []" by (simp add: reached_def procedures_def map_filter_def)
    have c: "case main b fuel (w, []) of (Done x, w', t') \<Rightarrow> reached driver_order t'
        | (Raised f, w', t') \<Rightarrow> (\<exists>qs. prefix qs driver_order \<and> reached qs t')
        | (Cut, w', t') \<Rightarrow> (\<exists>qs. prefix qs driver_order \<and> reached qs t')"
      by (rule main_stages[unfolded hoare_def, rule_format, OF start])
    have some: "\<exists>qs. prefix qs driver_order \<and> reached qs t"
    proof (cases r)
      case (Done x) with c eq have "reached driver_order t" by simp
      then show ?thesis by blast
    next
      case (Raised f) with c eq show ?thesis by simp
    next
      case Cut with c eq show ?thesis by simp
    qed
    have all: "r = Done () \<longrightarrow> remdups_adj (procedures t) = driver_order"
      using c eq by (auto simp: reached_def)
    from some have p: "prefix (remdups_adj (procedures t)) driver_order"
      and nb: "\<forall>e \<in> set t. \<not> blocking e"
      by (auto simp: reached_def)
    from nb have "(\<forall>ids r. Ec2 (WaitInstanceTerminated ids r) \<notin> set t)
      \<and> (\<forall>n r. Cfn (WaitStackDeleteComplete n r) \<notin> set t)"
      unfolding blocking_def by blast
    with p all eq show ?thesis
      by (simp add: trace_of_def outcome_of_def run_def Let_def)
  qed
  show ?thesis by (rule conjI[OF main_runs_contract blocks])
qed

text \<open>The driver on a region with a scaling group, an instance and a stack.\<close>

lemma small_region_run:
  "run (main test_boto3 1) small_region =
    (Done (),
     small_region\<lparr>scaling_groups := [], reservations := [],
       stacks := [(''web'', ''DELETE_IN_PROGRESS'', False)]\<rparr>,
     [Asg (DescribeAutoScalingGroups None (Inr ([''g1''], None))),
      Print ''Deleting Auto Scaling group: g1 in region cn-north-1'',
      Asg (DeleteAutoScalingGroup ''g1'' True (Inr ())),
      Print ''Deleted Auto Scaling group: g1 in region cn-north-1'',
      Ecs (EcsListClusters None (Inr ([], None))),
      Ec2 (DescribeInstances None (Inr ([[''i-1'']], None))),
      Print ''Terminating EC2 instance: i-1 in region cn-north-1'',
      Ec2 (TerminateInstances [''i-1''] (Inr ())),
      Lam (ListFunctions None (Inr ([], None))),
      Peer (DescribeVpcPeeringConnections (Inr ([], None))),
      Ops (ListDomainNames (Inr [])),
      Kin (ListStreams (Inr ([], None))),
      Kin (ListDeliveryStreams (Inr ([], None))),
      Eks (EksListClusters (Inr ([], None))),
      Cfn (ListStacks first_pass_statuses None
             (Inr ([\<lparr>StackName = ''web'', StackStatus = ''CREATE_COMPLETE''\<rparr>], None))),
      Cfn (ListStacks second_pass_statuses None
             (Inr ([\<lparr>StackName = ''web'', StackStatus = ''CREATE_COMPLETE''\<rparr>], None))),
      Cfn (DescribeStacks ''web'' (Inr [\<lparr>EnableTerminationProtection = False\<rparr>])),
      Print ''Deleting stack: web in region cn-north-1'',
      Cfn (DeleteStack ''web'' (Inr ()))])"
  by (simp add: run_def main_def Let_def ecs_defs eks_defs lambda_defs stack_defs
      delete_all_auto_scaling_groups_def terminate_all_ec2_instances_def
      delete_all_peering_connections_def delete_all_opensearch_clusters_def
      delete_all_kinesis_streams_def prog_defs test_listing_defs test_defs test_ec2_defs
      test_eks_defs test_ecs_defs small_region_def sublist_code)

theorem driver_order_of_procedures_witness:
  "outcome_of (main test_boto3 1) small_region = Done ()
   \<and> remdups_adj (procedures (trace_of (main test_boto3 1) small_region)) =
       [AutoScalingGroups, ContainerClusters, ComputeInstances, ServerlessFunctions,
        NetworkPeering, SearchClusters, StreamingPipelines, KubernetesClusters, CloudFormationStacks]
   \<and> run_each (driver_contract test_boto3 1) small_region =
    (Done (),
     small_region\<lparr>scaling_groups := [], reservations := [],
       stacks := [(''web'', ''DELETE_IN_PROGRESS'', False)]\<rparr>,
     [Asg (DescribeAutoScalingGroups None (Inr ([''g1''], None))),
      Print ''Deleting Auto Scaling group: g1 in region cn-north-1'',
      Asg (DeleteAutoScalingGroup ''g1'' True (Inr ())),
      Print ''Deleted Auto Scaling group: g1 in region cn-north-1'',
      Ecs (EcsListClusters None (Inr ([], None))),
      Ec2 (DescribeInstances None (Inr ([[''i-1'']], None))),
      Print ''Terminating EC2 instance: i-1 in region cn-north-1'',
      Ec2 (TerminateInstances [''i-1''] (Inr ())),
      Lam (ListFunctions None (Inr ([], None))),
      Peer (DescribeVpcPeeringConnections (Inr ([], None))),
      Ops (ListDomainNames (Inr [])),
      Kin (ListStreams (Inr ([], None))),
      Kin (ListDeliveryStreams (Inr ([], None))),
      Eks (EksListClusters (Inr ([], None))),
      Cfn (ListStacks first_pass_statuses None
             (Inr ([\<lparr>StackName = ''web'', StackStatus = ''CREATE_COMPLETE''\<rparr>], None))),
      Cfn (ListStacks second_pass_statuses None
             (Inr ([\<lparr>StackName = ''web'', StackStatus = ''CREATE_COMPLETE''\<rparr>], None))),
      Cfn (DescribeStacks ''web'' (Inr [\<lparr>EnableTerminationProtection = False\<rparr>])),
      Print ''Deleting stack: web in region cn-north-1'',
      Cfn (DeleteStack ''web'' (Inr ()))])"
proof -
  have d: "outcome_of (main test_boto3 1) small_region = Done ()"
    unfolding outcome_of_def small_region_run by simp
  note c = driver_order_of_procedures[of test_boto3 1 small_region]
  from c[THEN conjunct2, unfolded Let_def, THEN conjunct2, THEN conjunct1, THEN mp, OF d]
  have o: "remdups_adj (procedures (trace_of (main test_boto3 1) small_region)) =
       [AutoScalingGroups, ContainerClusters, ComputeInstances, ServerlessFunctions,
        NetworkPeering, SearchClusters, StreamingPipelines, KubernetesClusters, CloudFormationStacks]"
    by (simp only: driver_order_def)
  from c[THEN conjunct1, symmetric] have e: "run_each (driver_contract test_boto3 1) small_region
      = run (main test_boto3 1) small_region" .
  show ?thesis unfolding e small_region_run using d o by simp
qed

end
